theory Spec2Isabelle
  imports Main "HOL-Library.Word" "HOL-Library.Char_ord" "HOL-Library.List_Lexorder"
begin

section \<open>Conventions of the embedding\<close>

text \<open>
  The catalog engine of the tape management system (\<^verbatim>\<open>tms_system.h\<close>, \<^verbatim>\<open>tms_types.h\<close>,
  \<^verbatim>\<open>tms_tape_mgmt.cpp\<close>) is embedded as pure functions over an explicit system state.

  \<^item> A private member \<^verbatim>\<open>x_\<close> of a C++ class is the record field \<open>x_m\<close>
    (an identifier of HOL cannot end with an underscore).
  \<^item> \<^verbatim>\<open>std::chrono::system_clock::time_point\<close> is an \<open>int\<close> (ticks since the epoch);
    the default-constructed time point is \<open>0\<close>. Every operation that reads the clock takes
    the instant \<open>now\<close> as a parameter; it stands for all clock reads of that call.
  \<^item> \<^verbatim>\<open>std::string\<close> is \<open>string\<close>; its order \<^verbatim>\<open><\<close> (bytewise lexicographic) is the
    order of \<open>char list\<close> given by \<open>Char_ord\<close> and \<open>List_Lexorder\<close>.
  \<^item> \<^verbatim>\<open>uint64_t\<close> and \<^verbatim>\<open>size_t\<close> byte counts are \<open>64 word\<close>; container sizes and
    counters of operations are \<open>nat\<close>.
  \<^item> \<^verbatim>\<open>OperationResult\<close> and \<^verbatim>\<open>Result<T>\<close> are sums: \<open>Inl\<close> carries the
    \<^verbatim>\<open>ErrorInfo\<close>, \<open>Inr\<close> the value.
\<close>

type_synonym time_point = int
type_synonym u64 = "64 word"

section \<open>Error codes (error\_codes.h)\<close>

text \<open>The members of \<^verbatim>\<open>enum class TMSError\<close> that the modelled operations return.\<close>

datatype TMSError =
    VOLUME_NOT_FOUND
  | VOLUME_ALREADY_EXISTS
  | VOLUME_MOUNTED
  | VOLUME_HAS_DATASETS
  | VOLUME_RESERVED
  | VOLUME_LIMIT_REACHED
  | DATASET_NOT_FOUND
  | DATASET_ALREADY_EXISTS
  | DATASET_LIMIT_REACHED
  | INVALID_VOLSER
  | INVALID_DATASET_NAME
  | INVALID_STATE
  | ACCESS_DENIED
  | NO_SCRATCH_AVAILABLE

record ErrorInfo =
  code :: TMSError
  message :: string

type_synonym OperationResult = "ErrorInfo + unit"

definition err :: "TMSError \<Rightarrow> string \<Rightarrow> ErrorInfo + 'a" where
  "err c msg = Inl \<lparr>code = c, message = msg\<rparr>"

definition ok :: "OperationResult" where
  "ok = Inr ()"

definition is_success :: "ErrorInfo + 'a \<Rightarrow> bool" where
  "is_success r = (case r of Inl _ \<Rightarrow> False | Inr _ \<Rightarrow> True)"

definition is_error :: "ErrorInfo + 'a \<Rightarrow> bool" where
  "is_error r = (case r of Inl _ \<Rightarrow> True | Inr _ \<Rightarrow> False)"

definition error_code :: "ErrorInfo + 'a \<Rightarrow> TMSError option" where
  "error_code r = (case r of Inl e \<Rightarrow> Some (code e) | Inr _ \<Rightarrow> None)"

section \<open>Audit log with auto-pruning (tms\_system.h, class AuditLog)\<close>

record AuditRecord =
  timestamp :: time_point
  operation :: string
  user :: string
  target :: string
  details :: string
  success :: bool
  source_ip :: string
  session_id :: string

record AuditLog =
  records_m :: "AuditRecord list"
  max_records_m :: nat
  pruned_count_m :: nat

text \<open>The constructor \<^verbatim>\<open>AuditLog(size_t max_records = 10000)\<close>.\<close>

definition AuditLog_new :: "nat \<Rightarrow> AuditLog" where
  "AuditLog_new max_records = \<lparr>records_m = [], max_records_m = max_records, pruned_count_m = 0\<rparr>"

text \<open>\<^verbatim>\<open>AuditLog::prune\<close>: erases the first \<open>max_records / 5\<close> records when that number is
  positive and smaller than the current size.\<close>

definition prune :: "AuditLog \<Rightarrow> AuditLog" where
  "prune al =
     (let to_remove = max_records_m al div 5
      in if to_remove > 0 \<and> length (records_m al) > to_remove
         then al\<lparr>records_m := drop to_remove (records_m al),
                 pruned_count_m := pruned_count_m al + to_remove\<rparr>
         else al)"

text \<open>\<^verbatim>\<open>AuditLog::add(const AuditRecord&)\<close>: push back, then prune when the size exceeds
  the capacity.\<close>

definition AuditLog_add :: "AuditRecord \<Rightarrow> AuditLog \<Rightarrow> AuditLog" where
  "AuditLog_add record al =
     (let al' = al\<lparr>records_m := records_m al @ [record]\<rparr>
      in if length (records_m al') > max_records_m al' then prune al' else al')"

text \<open>\<^verbatim>\<open>AuditLog::add(operation, user, target, details, success)\<close>.\<close>

definition AuditLog_add_fields ::
  "time_point \<Rightarrow> string \<Rightarrow> string \<Rightarrow> string \<Rightarrow> string \<Rightarrow> bool \<Rightarrow> AuditLog \<Rightarrow> AuditLog" where
  "AuditLog_add_fields now opn usr tgt dtl succ al =
     AuditLog_add \<lparr>timestamp = now, operation = opn, user = usr, target = tgt,
                   details = dtl, success = succ, source_ip = [], session_id = []\<rparr> al"

definition AuditLog_clear :: "AuditLog \<Rightarrow> AuditLog" where
  "AuditLog_clear al = al\<lparr>records_m := [], pruned_count_m := 0\<rparr>"

definition AuditLog_size :: "AuditLog \<Rightarrow> nat" where
  "AuditLog_size al = length (records_m al)"

definition pruned_count :: "AuditLog \<Rightarrow> nat" where
  "pruned_count al = pruned_count_m al"

text \<open>Inserting a sequence of records, one \<^verbatim>\<open>add\<close> call each, in order.\<close>

fun add_records :: "AuditRecord list \<Rightarrow> AuditLog \<Rightarrow> AuditLog" where
  "add_records [] al = al"
| "add_records (r # rs) al = add_records rs (AuditLog_add r al)"

section \<open>Containers of the standard library\<close>

text \<open>
  \<^verbatim>\<open>std::map<K, V>\<close> is an association list whose keys are strictly ascending (the order in
  which the map is iterated). \<open>map_ok\<close> is that invariant; \<open>map_assign\<close> is
  \<^verbatim>\<open>m[k] = v\<close>, and it is also the write through an iterator to the entry of \<open>k\<close>.
\<close>

definition map_ok :: "('k::linorder \<times> 'v) list \<Rightarrow> bool" where
  "map_ok m = sorted_wrt (<) (map fst m)"

definition map_find :: "'k \<Rightarrow> ('k \<times> 'v) list \<Rightarrow> 'v option" where
  "map_find k m = map_of m k"

fun map_assign :: "'k::linorder \<Rightarrow> 'v \<Rightarrow> ('k \<times> 'v) list \<Rightarrow> ('k \<times> 'v) list" where
  "map_assign k v [] = [(k, v)]"
| "map_assign k v ((k', v') # m) =
     (if k < k' then (k, v) # (k', v') # m
      else if k = k' then (k, v) # m
      else (k', v') # map_assign k v m)"

definition map_erase :: "'k \<Rightarrow> ('k \<times> 'v) list \<Rightarrow> ('k \<times> 'v) list" where
  "map_erase k m = filter (\<lambda>kv. fst kv \<noteq> k) m"

definition map_count :: "'k \<Rightarrow> ('k \<times> 'v) list \<Rightarrow> nat" where
  "map_count k m = (case map_find k m of None \<Rightarrow> 0 | Some _ \<Rightarrow> 1)"

definition map_size :: "('k \<times> 'v) list \<Rightarrow> nat" where
  "map_size m = length m"

text \<open>\<^verbatim>\<open>std::set<T>\<close> is the list of its elements in iteration order.\<close>

definition set_insert :: "'a::linorder \<Rightarrow> 'a list \<Rightarrow> 'a list" where
  "set_insert x xs = (if x \<in> set xs then xs else insort x xs)"

definition set_erase :: "'a \<Rightarrow> 'a list \<Rightarrow> 'a list" where
  "set_erase x xs = removeAll x xs"

text \<open>\<^verbatim>\<open>std::to_string\<close> on unsigned and signed integers.\<close>

fun to_string :: "nat \<Rightarrow> string" where
  "to_string n =
     (if n < 10 then [char_of (48 + n)]
      else to_string (n div 10) @ [char_of (48 + n mod 10)])"

declare to_string.simps [simp del]

definition to_string_int :: "int \<Rightarrow> string" where
  "to_string_int i = (if i < 0 then CHR ''-'' # to_string (nat (- i)) else to_string (nat i))"

section \<open>Secondary index (tms\_system.h, class SecondaryIndex)\<close>

text \<open>The member \<^verbatim>\<open>std::map<std::string, std::set<KeyType>> index_\<close>, with string keys.\<close>

type_synonym SecondaryIndex = "(string \<times> string list) list"

definition SecondaryIndex_add :: "string \<Rightarrow> string \<Rightarrow> SecondaryIndex \<Rightarrow> SecondaryIndex" where
  "SecondaryIndex_add attr_value key index_m =
     (if attr_value \<noteq> []
      then map_assign attr_value
             (set_insert key (case map_find attr_value index_m of None \<Rightarrow> [] | Some ks \<Rightarrow> ks))
             index_m
      else index_m)"

definition SecondaryIndex_remove :: "string \<Rightarrow> string \<Rightarrow> SecondaryIndex \<Rightarrow> SecondaryIndex" where
  "SecondaryIndex_remove attr_value key index_m =
     (case map_find attr_value index_m of
        None \<Rightarrow> index_m
      | Some ks \<Rightarrow>
          (if set_erase key ks = [] then map_erase attr_value index_m
           else map_assign attr_value (set_erase key ks) index_m))"

definition SecondaryIndex_update ::
  "string \<Rightarrow> string \<Rightarrow> string \<Rightarrow> SecondaryIndex \<Rightarrow> SecondaryIndex" where
  "SecondaryIndex_update old_value new_value key index_m =
     SecondaryIndex_add new_value key (SecondaryIndex_remove old_value key index_m)"

definition SecondaryIndex_find :: "string \<Rightarrow> SecondaryIndex \<Rightarrow> string list" where
  "SecondaryIndex_find attr_value index_m =
     (case map_find attr_value index_m of Some ks \<Rightarrow> ks | None \<Rightarrow> [])"

section \<open>Volumes and datasets (tms\_types.h)\<close>

datatype VolumeStatus =
  SCRATCH | PRIVATE | ARCHIVED | EXPIRED | MOUNTED | OFFLINE | RESERVED | VOLUME_ERROR

text \<open>\<^verbatim>\<open>DatasetStatus::EXPIRED\<close> is \<open>DS_EXPIRED\<close>: the constructors of HOL share one name space.\<close>

datatype DatasetStatus =
  ACTIVE | MIGRATED | DS_EXPIRED | DELETED | RECALLED | PENDING

datatype TapeDensity =
    DENSITY_800BPI | DENSITY_1600BPI | DENSITY_6250BPI
  | DENSITY_3480 | DENSITY_3490 | DENSITY_3590
  | DENSITY_LTO1 | DENSITY_LTO2 | DENSITY_LTO3 | DENSITY_LTO4 | DENSITY_LTO5
  | DENSITY_LTO6 | DENSITY_LTO7 | DENSITY_LTO8 | DENSITY_LTO9

text \<open>
  \<^verbatim>\<open>struct TapeVolume\<close>. The fields \<^verbatim>\<open>location\<close>, \<^verbatim>\<open>mount_count\<close>,
  \<^verbatim>\<open>write_protected\<close>, \<^verbatim>\<open>error_count\<close>, \<^verbatim>\<open>notes\<close>, \<^verbatim>\<open>location_history\<close>,
  \<^verbatim>\<open>encryption\<close>, \<^verbatim>\<open>storage_tier\<close>, \<^verbatim>\<open>last_access_date\<close>, \<^verbatim>\<open>media_type\<close>,
  \<^verbatim>\<open>read_error_count\<close> and \<^verbatim>\<open>write_error_count\<close> are left out: the operations modelled
  here copy them and never read them. \<^verbatim>\<open>health_score\<close> (floating point, recomputed by
  \<^verbatim>\<open>add_volume\<close>, read by no operation modelled here) is left out as well.
\<close>

record TapeVolume =
  volser :: string
  status :: VolumeStatus
  density :: TapeDensity
  pool :: string
  owner :: string
  creation_date :: time_point
  expiration_date :: time_point
  last_used :: time_point
  capacity_bytes :: u64
  used_bytes :: u64
  datasets :: "string list"
  tags :: "string list"
  reserved_by :: string
  reservation_expires :: time_point
  last_health_check :: time_point

text \<open>
  \<^verbatim>\<open>struct Dataset\<close>; its fields carry the prefix \<open>ds_\<close> where \<^verbatim>\<open>TapeVolume\<close> has a field
  of the same name. The GDG, record-format and compression fields are left out (copied,
  never read).
\<close>

record Dataset =
  ds_name :: string
  ds_volser :: string
  ds_status :: DatasetStatus
  size_bytes :: u64
  ds_owner :: string
  ds_creation_date :: time_point
  ds_expiration_date :: time_point
  ds_tags :: "string list"

definition is_expired :: "time_point \<Rightarrow> TapeVolume \<Rightarrow> bool" where
  "is_expired now vol = (expiration_date vol < now)"

definition is_reserved :: "time_point \<Rightarrow> TapeVolume \<Rightarrow> bool" where
  "is_reserved now vol = (reserved_by vol \<noteq> [] \<and> reservation_expires vol > now)"

definition is_available_for_scratch :: "time_point \<Rightarrow> TapeVolume \<Rightarrow> bool" where
  "is_available_for_scratch now vol =
     (status vol = SCRATCH \<and> \<not> is_reserved now vol \<and> \<not> is_expired now vol)"

section \<open>Utilities (tms\_utils.h, tms\_version.h)\<close>

text \<open>\<^verbatim>\<open>std::isalnum\<close> in the default "C" locale.\<close>

definition isalnum :: "char \<Rightarrow> bool" where
  "isalnum c =
     (let n = (of_char c :: nat)
      in (48 \<le> n \<and> n \<le> 57) \<or> (65 \<le> n \<and> n \<le> 90) \<or> (97 \<le> n \<and> n \<le> 122))"

definition MAX_VOLSER_LENGTH :: nat where
  "MAX_VOLSER_LENGTH = 6"

definition MAX_DATASET_NAME_LENGTH :: nat where
  "MAX_DATASET_NAME_LENGTH = 44"

definition validate_volser :: "string \<Rightarrow> bool" where
  "validate_volser volser' =
     (if volser' = [] \<or> length volser' > MAX_VOLSER_LENGTH then False
      else list_all isalnum volser')"

definition validate_dataset_name :: "string \<Rightarrow> bool" where
  "validate_dataset_name name =
     (if name = [] \<or> length name > MAX_DATASET_NAME_LENGTH then False
      else list_all (\<lambda>c. isalnum c \<or> c = CHR ''.'' \<or> c = CHR ''-'' \<or> c = CHR ''_'') name)"

definition get_density_capacity :: "TapeDensity \<Rightarrow> u64" where
  "get_density_capacity d =
     (case d of
        DENSITY_800BPI \<Rightarrow> 40 * 1024 * 1024
      | DENSITY_1600BPI \<Rightarrow> 80 * 1024 * 1024
      | DENSITY_6250BPI \<Rightarrow> 170 * 1024 * 1024
      | DENSITY_3480 \<Rightarrow> 200 * 1024 * 1024
      | DENSITY_3490 \<Rightarrow> 800 * 1024 * 1024
      | DENSITY_3590 \<Rightarrow> 60 * 1024 * 1024 * 1024
      | DENSITY_LTO1 \<Rightarrow> 100 * 1024 * 1024 * 1024
      | DENSITY_LTO2 \<Rightarrow> 200 * 1024 * 1024 * 1024
      | DENSITY_LTO3 \<Rightarrow> 400 * 1024 * 1024 * 1024
      | DENSITY_LTO4 \<Rightarrow> 800 * 1024 * 1024 * 1024
      | DENSITY_LTO5 \<Rightarrow> 1500 * 1024 * 1024 * 1024
      | DENSITY_LTO6 \<Rightarrow> 2500 * 1024 * 1024 * 1024
      | DENSITY_LTO7 \<Rightarrow> 6000 * 1024 * 1024 * 1024
      | DENSITY_LTO8 \<Rightarrow> 12000 * 1024 * 1024 * 1024
      | DENSITY_LTO9 \<Rightarrow> 18000 * 1024 * 1024 * 1024)"

definition volume_status_to_string :: "VolumeStatus \<Rightarrow> string" where
  "volume_status_to_string st =
     (case st of
        SCRATCH \<Rightarrow> ''SCRATCH'' | PRIVATE \<Rightarrow> ''PRIVATE'' | ARCHIVED \<Rightarrow> ''ARCHIVED''
      | EXPIRED \<Rightarrow> ''EXPIRED'' | MOUNTED \<Rightarrow> ''MOUNTED'' | OFFLINE \<Rightarrow> ''OFFLINE''
      | RESERVED \<Rightarrow> ''RESERVED'' | VOLUME_ERROR \<Rightarrow> ''ERROR'')"

text \<open>Durations in ticks of \<^verbatim>\<open>system_clock\<close> (nanoseconds in libstdc++).\<close>

definition seconds :: "int \<Rightarrow> int" where
  "seconds n = n * 1000000000"

definition hours :: "int \<Rightarrow> int" where
  "hours n = seconds (n * 3600)"

section \<open>The catalog engine (tms\_system.h, class TMSSystem)\<close>

text \<open>The two limits that \<^verbatim>\<open>Configuration::instance()\<close> supplies to the engine.\<close>

record Configuration =
  max_volumes :: nat
  max_datasets :: nat

record TMSSystem =
  current_user_m :: string
  volumes_m :: "(string \<times> TapeVolume) list"
  datasets_m :: "(string \<times> Dataset) list"
  volume_owner_index_m :: SecondaryIndex
  volume_pool_index_m :: SecondaryIndex
  volume_tag_index_m :: SecondaryIndex
  dataset_owner_index_m :: SecondaryIndex
  dataset_tag_index_m :: SecondaryIndex
  audit_log_m :: AuditLog

text \<open>A system over an empty data directory: nothing is loaded, the user is \<^verbatim>\<open>SYSTEM\<close>,
  the audit log has capacity 10000.\<close>

definition TMSSystem_new :: TMSSystem where
  "TMSSystem_new =
     \<lparr>current_user_m = ''SYSTEM'', volumes_m = [], datasets_m = [],
      volume_owner_index_m = [], volume_pool_index_m = [], volume_tag_index_m = [],
      dataset_owner_index_m = [], dataset_tag_index_m = [],
      audit_log_m = AuditLog_new 10000\<rparr>"

definition add_audit_record ::
  "time_point \<Rightarrow> string \<Rightarrow> string \<Rightarrow> string \<Rightarrow> TMSSystem \<Rightarrow> TMSSystem" where
  "add_audit_record now opn tgt dtl s =
     s\<lparr>audit_log_m := AuditLog_add_fields now opn (current_user_m s) tgt dtl True (audit_log_m s)\<rparr>"

subsection \<open>Volume management\<close>

text \<open>The defaults that \<^verbatim>\<open>add_volume\<close> assigns to the copy it stores.\<close>

definition add_volume_defaults :: "time_point \<Rightarrow> TapeVolume \<Rightarrow> TapeVolume" where
  "add_volume_defaults now volume =
     (let vol = volume;
          vol = (if creation_date vol = 0 then vol\<lparr>creation_date := now\<rparr> else vol);
          vol = (if expiration_date vol = 0
                 then vol\<lparr>expiration_date := creation_date vol + hours (24 * 365)\<rparr> else vol);
          vol = (if capacity_bytes vol = 0
                 then vol\<lparr>capacity_bytes := get_density_capacity (density vol)\<rparr> else vol)
      in vol\<lparr>last_health_check := now\<rparr>)"

text \<open>The store into the primary map and the three volume indices.\<close>

definition add_volume_store :: "TapeVolume \<Rightarrow> TMSSystem \<Rightarrow> TMSSystem" where
  "add_volume_store vol s =
     s\<lparr>volumes_m := map_assign (volser vol) vol (volumes_m s),
       volume_owner_index_m := SecondaryIndex_add (owner vol) (volser vol) (volume_owner_index_m s),
       volume_pool_index_m := SecondaryIndex_add (pool vol) (volser vol) (volume_pool_index_m s),
       volume_tag_index_m :=
         fold (\<lambda>tag. SecondaryIndex_add tag (volser vol)) (tags vol) (volume_tag_index_m s)\<rparr>"

definition add_volume ::
  "Configuration \<Rightarrow> time_point \<Rightarrow> TapeVolume \<Rightarrow> TMSSystem \<Rightarrow> OperationResult \<times> TMSSystem" where
  "add_volume cfg now volume s =
     (if \<not> validate_volser (volser volume)
      then (err INVALID_VOLSER (''Invalid volume serial: '' @ volser volume), s)
      else if map_size (volumes_m s) \<ge> max_volumes cfg
      then (err VOLUME_LIMIT_REACHED ''Maximum volume limit reached'', s)
      else if map_count (volser volume) (volumes_m s) > 0
      then (err VOLUME_ALREADY_EXISTS (''Volume already exists: '' @ volser volume), s)
      else (let vol = add_volume_defaults now volume
            in (ok, add_audit_record now ''ADD_VOLUME'' (volser vol)
                      (''Status: '' @ volume_status_to_string (status vol))
                      (add_volume_store vol s))))"

text \<open>The body of the loop over \<^verbatim>\<open>it->second.datasets\<close> in a forced delete: a dataset
  of that name, when there is one, leaves both dataset indices and the dataset map.\<close>

definition erase_listed_dataset :: "string \<Rightarrow> TMSSystem \<Rightarrow> TMSSystem" where
  "erase_listed_dataset name s =
     (case map_find name (datasets_m s) of
        None \<Rightarrow> s
      | Some ds \<Rightarrow>
          s\<lparr>dataset_owner_index_m := SecondaryIndex_remove (ds_owner ds) name (dataset_owner_index_m s),
            dataset_tag_index_m :=
              fold (\<lambda>tag. SecondaryIndex_remove tag name) (ds_tags ds) (dataset_tag_index_m s),
            datasets_m := map_erase name (datasets_m s)\<rparr>)"

definition delete_volume_erase :: "string \<Rightarrow> TapeVolume \<Rightarrow> bool \<Rightarrow> TMSSystem \<Rightarrow> TMSSystem" where
  "delete_volume_erase volser' vol force s =
     (let s1 = s\<lparr>volume_owner_index_m :=
                   SecondaryIndex_remove (owner vol) volser' (volume_owner_index_m s),
                 volume_pool_index_m :=
                   SecondaryIndex_remove (pool vol) volser' (volume_pool_index_m s),
                 volume_tag_index_m :=
                   fold (\<lambda>tag. SecondaryIndex_remove tag volser') (tags vol) (volume_tag_index_m s)\<rparr>;
          s2 = (if force then fold erase_listed_dataset (datasets vol) s1 else s1)
      in s2\<lparr>volumes_m := map_erase volser' (volumes_m s2)\<rparr>)"

definition delete_volume ::
  "time_point \<Rightarrow> string \<Rightarrow> bool \<Rightarrow> TMSSystem \<Rightarrow> OperationResult \<times> TMSSystem" where
  "delete_volume now volser' force s =
     (case map_find volser' (volumes_m s) of
        None \<Rightarrow> (err VOLUME_NOT_FOUND (''Volume not found: '' @ volser'), s)
      | Some vol \<Rightarrow>
          (if \<not> force \<and> datasets vol \<noteq> []
           then (err VOLUME_HAS_DATASETS
                   (''Volume has '' @ to_string (length (datasets vol)) @ '' datasets''), s)
           else if status vol = MOUNTED
           then (err VOLUME_MOUNTED ''Cannot delete mounted volume'', s)
           else if is_reserved now vol
           then (err VOLUME_RESERVED ''Cannot delete reserved volume'', s)
           else (ok, add_audit_record now ''DELETE_VOLUME'' volser'
                       (''Force: '' @ (if force then ''yes'' else ''no''))
                       (delete_volume_erase volser' vol force s))))"

definition update_volume_store :: "TapeVolume \<Rightarrow> TapeVolume \<Rightarrow> TMSSystem \<Rightarrow> TMSSystem" where
  "update_volume_store old volume s =
     s\<lparr>volume_owner_index_m :=
         (if owner old \<noteq> owner volume
          then SecondaryIndex_update (owner old) (owner volume) (volser volume) (volume_owner_index_m s)
          else volume_owner_index_m s),
       volume_pool_index_m :=
         (if pool old \<noteq> pool volume
          then SecondaryIndex_update (pool old) (pool volume) (volser volume) (volume_pool_index_m s)
          else volume_pool_index_m s),
       volume_tag_index_m :=
         fold (\<lambda>new_tag ix. if new_tag \<notin> set (tags old)
                             then SecondaryIndex_add new_tag (volser volume) ix else ix)
           (tags volume)
           (fold (\<lambda>old_tag ix. if old_tag \<notin> set (tags volume)
                                then SecondaryIndex_remove old_tag (volser volume) ix else ix)
              (tags old) (volume_tag_index_m s)),
       volumes_m := map_assign (volser volume) volume (volumes_m s)\<rparr>"

definition update_volume ::
  "time_point \<Rightarrow> TapeVolume \<Rightarrow> TMSSystem \<Rightarrow> OperationResult \<times> TMSSystem" where
  "update_volume now volume s =
     (case map_find (volser volume) (volumes_m s) of
        None \<Rightarrow> (err VOLUME_NOT_FOUND (''Volume not found: '' @ volser volume), s)
      | Some old \<Rightarrow>
          (ok, add_audit_record now ''UPDATE_VOLUME'' (volser volume) ''Updated''
                 (update_volume_store old volume s)))"

text \<open>The indexed lookups: the keys of the index entry, each looked up in the primary map.\<close>

definition get_volumes_by_owner :: "string \<Rightarrow> TMSSystem \<Rightarrow> TapeVolume list" where
  "get_volumes_by_owner owner' s =
     List.map_filter (\<lambda>k. map_find k (volumes_m s))
       (SecondaryIndex_find owner' (volume_owner_index_m s))"

definition get_volumes_by_pool :: "string \<Rightarrow> TMSSystem \<Rightarrow> TapeVolume list" where
  "get_volumes_by_pool pool' s =
     List.map_filter (\<lambda>k. map_find k (volumes_m s))
       (SecondaryIndex_find pool' (volume_pool_index_m s))"

definition find_volumes_by_tag :: "string \<Rightarrow> TMSSystem \<Rightarrow> TapeVolume list" where
  "find_volumes_by_tag tag s =
     List.map_filter (\<lambda>k. map_find k (volumes_m s))
       (SecondaryIndex_find tag (volume_tag_index_m s))"

subsection \<open>Dataset management\<close>

definition add_dataset_defaults :: "time_point \<Rightarrow> Dataset \<Rightarrow> Dataset" where
  "add_dataset_defaults now dataset =
     (let ds = dataset;
          ds = (if ds_creation_date ds = 0 then ds\<lparr>ds_creation_date := now\<rparr> else ds)
      in (if ds_expiration_date ds = 0
          then ds\<lparr>ds_expiration_date := ds_creation_date ds + hours (24 * 30)\<rparr> else ds))"

text \<open>The store of a dataset: the primary map, the two dataset indices and the volume it
  names (list of dataset names, used bytes, \<^verbatim>\<open>SCRATCH\<close> becomes \<^verbatim>\<open>PRIVATE\<close>).\<close>

definition add_dataset_store :: "Dataset \<Rightarrow> TapeVolume \<Rightarrow> TMSSystem \<Rightarrow> TMSSystem" where
  "add_dataset_store ds vol s =
     s\<lparr>datasets_m := map_assign (ds_name ds) ds (datasets_m s),
       dataset_owner_index_m := SecondaryIndex_add (ds_owner ds) (ds_name ds) (dataset_owner_index_m s),
       dataset_tag_index_m :=
         fold (\<lambda>tag. SecondaryIndex_add tag (ds_name ds)) (ds_tags ds) (dataset_tag_index_m s),
       volumes_m :=
         map_assign (ds_volser ds)
           (vol\<lparr>datasets := datasets vol @ [ds_name ds],
                 used_bytes := used_bytes vol + size_bytes ds,
                 status := (if status vol = SCRATCH then PRIVATE else status vol)\<rparr>)
           (volumes_m s)\<rparr>"

definition add_dataset ::
  "Configuration \<Rightarrow> time_point \<Rightarrow> Dataset \<Rightarrow> TMSSystem \<Rightarrow> OperationResult \<times> TMSSystem" where
  "add_dataset cfg now dataset s =
     (if \<not> validate_dataset_name (ds_name dataset)
      then (err INVALID_DATASET_NAME (''Invalid dataset name: '' @ ds_name dataset), s)
      else if map_size (datasets_m s) \<ge> max_datasets cfg
      then (err DATASET_LIMIT_REACHED ''Maximum dataset limit reached'', s)
      else if map_count (ds_name dataset) (datasets_m s) > 0
      then (err DATASET_ALREADY_EXISTS (''Dataset already exists: '' @ ds_name dataset), s)
      else (case map_find (ds_volser dataset) (volumes_m s) of
              None \<Rightarrow> (err VOLUME_NOT_FOUND (''Volume not found: '' @ ds_volser dataset), s)
            | Some vol \<Rightarrow>
                (let ds = add_dataset_defaults now dataset
                 in (ok, add_audit_record now ''ADD_DATASET'' (ds_name ds)
                           (''Volume: '' @ ds_volser ds) (add_dataset_store ds vol s)))))"

text \<open>The update of the volume of a deleted dataset: the name leaves the list, the size is
  subtracted (floored at zero), an emptied \<^verbatim>\<open>PRIVATE\<close> volume becomes \<^verbatim>\<open>SCRATCH\<close>.\<close>

definition delete_dataset_volume :: "string \<Rightarrow> Dataset \<Rightarrow> TapeVolume \<Rightarrow> TapeVolume" where
  "delete_dataset_volume name ds vol =
     (let ds_list = removeAll name (datasets vol);
          used = (if used_bytes vol \<ge> size_bytes ds then used_bytes vol - size_bytes ds else 0)
      in vol\<lparr>datasets := ds_list, used_bytes := used,
             status := (if ds_list = [] \<and> status vol = PRIVATE then SCRATCH else status vol)\<rparr>)"

definition delete_dataset_erase :: "string \<Rightarrow> Dataset \<Rightarrow> TMSSystem \<Rightarrow> TMSSystem" where
  "delete_dataset_erase name ds s =
     s\<lparr>volumes_m :=
         (case map_find (ds_volser ds) (volumes_m s) of
            None \<Rightarrow> volumes_m s
          | Some vol \<Rightarrow> map_assign (ds_volser ds) (delete_dataset_volume name ds vol) (volumes_m s)),
       dataset_owner_index_m := SecondaryIndex_remove (ds_owner ds) name (dataset_owner_index_m s),
       dataset_tag_index_m :=
         fold (\<lambda>tag. SecondaryIndex_remove tag name) (ds_tags ds) (dataset_tag_index_m s),
       datasets_m := map_erase name (datasets_m s)\<rparr>"

definition delete_dataset ::
  "time_point \<Rightarrow> string \<Rightarrow> TMSSystem \<Rightarrow> OperationResult \<times> TMSSystem" where
  "delete_dataset now name s =
     (case map_find name (datasets_m s) of
        None \<Rightarrow> (err DATASET_NOT_FOUND (''Dataset not found: '' @ name), s)
      | Some ds \<Rightarrow>
          (ok, add_audit_record now ''DELETE_DATASET'' name ''Deleted''
                 (delete_dataset_erase name ds s)))"

definition update_dataset_store :: "Dataset \<Rightarrow> Dataset \<Rightarrow> TMSSystem \<Rightarrow> TMSSystem" where
  "update_dataset_store old dataset s =
     s\<lparr>dataset_owner_index_m :=
         (if ds_owner old \<noteq> ds_owner dataset
          then SecondaryIndex_update (ds_owner old) (ds_owner dataset) (ds_name dataset)
                 (dataset_owner_index_m s)
          else dataset_owner_index_m s),
       dataset_tag_index_m :=
         fold (\<lambda>new_tag ix. if new_tag \<notin> set (ds_tags old)
                             then SecondaryIndex_add new_tag (ds_name dataset) ix else ix)
           (ds_tags dataset)
           (fold (\<lambda>old_tag ix. if old_tag \<notin> set (ds_tags dataset)
                                then SecondaryIndex_remove old_tag (ds_name dataset) ix else ix)
              (ds_tags old) (dataset_tag_index_m s)),
       datasets_m := map_assign (ds_name dataset) dataset (datasets_m s)\<rparr>"

definition update_dataset ::
  "time_point \<Rightarrow> Dataset \<Rightarrow> TMSSystem \<Rightarrow> OperationResult \<times> TMSSystem" where
  "update_dataset now dataset s =
     (case map_find (ds_name dataset) (datasets_m s) of
        None \<Rightarrow> (err DATASET_NOT_FOUND (''Dataset not found: '' @ ds_name dataset), s)
      | Some old \<Rightarrow>
          (ok, add_audit_record now ''UPDATE_DATASET'' (ds_name dataset) ''Updated''
                 (update_dataset_store old dataset s)))"

definition get_datasets_by_owner :: "string \<Rightarrow> TMSSystem \<Rightarrow> Dataset list" where
  "get_datasets_by_owner owner' s =
     List.map_filter (\<lambda>k. map_find k (datasets_m s))
       (SecondaryIndex_find owner' (dataset_owner_index_m s))"

definition find_datasets_by_tag :: "string \<Rightarrow> TMSSystem \<Rightarrow> Dataset list" where
  "find_datasets_by_tag tag s =
     List.map_filter (\<lambda>k. map_find k (datasets_m s))
       (SecondaryIndex_find tag (dataset_tag_index_m s))"

subsection \<open>Volume reservation\<close>

text \<open>The duration is a number of seconds (\<^verbatim>\<open>std::chrono::seconds\<close>).\<close>

definition reserve_volume ::
  "time_point \<Rightarrow> string \<Rightarrow> string \<Rightarrow> int \<Rightarrow> TMSSystem \<Rightarrow> OperationResult \<times> TMSSystem" where
  "reserve_volume now volser' user' duration s =
     (case map_find volser' (volumes_m s) of
        None \<Rightarrow> (err VOLUME_NOT_FOUND (''Volume not found: '' @ volser'), s)
      | Some vol \<Rightarrow>
          (if is_reserved now vol \<and> reserved_by vol \<noteq> user'
           then (err VOLUME_RESERVED (''Volume reserved by: '' @ reserved_by vol), s)
           else (ok, add_audit_record now ''RESERVE_VOLUME'' volser'
                       (''User: '' @ user' @ '', Duration: '' @ to_string_int duration @ ''s'')
                       (s\<lparr>volumes_m :=
                            map_assign volser'
                              (vol\<lparr>reserved_by := user',
                                    reservation_expires := now + seconds duration\<rparr>)
                              (volumes_m s)\<rparr>))))"

definition release_volume ::
  "time_point \<Rightarrow> string \<Rightarrow> string \<Rightarrow> TMSSystem \<Rightarrow> OperationResult \<times> TMSSystem" where
  "release_volume now volser' user' s =
     (case map_find volser' (volumes_m s) of
        None \<Rightarrow> (err VOLUME_NOT_FOUND (''Volume not found: '' @ volser'), s)
      | Some vol \<Rightarrow>
          (if \<not> is_reserved now vol
           then (err INVALID_STATE ''Volume not reserved'', s)
           else if reserved_by vol \<noteq> user'
           then (err ACCESS_DENIED (''Cannot release: reserved by '' @ reserved_by vol), s)
           else (ok, add_audit_record now ''RELEASE_VOLUME'' volser' (''User: '' @ user')
                       (s\<lparr>volumes_m :=
                            map_assign volser'
                              (vol\<lparr>reserved_by := [], reservation_expires := 0\<rparr>)
                              (volumes_m s)\<rparr>))))"

subsection \<open>Scratch pool\<close>

text \<open>
  The loop of \<^verbatim>\<open>allocate_scratch_volume\<close> over \<^verbatim>\<open>volumes_\<close> in key order. The first volume
  that passes the three tests is claimed in place; the result is its key and the map after
  the claim, or \<open>None\<close> when the loop runs to the end.
\<close>

fun allocate_scan ::
  "time_point \<Rightarrow> string \<Rightarrow> TapeDensity option \<Rightarrow> (string \<times> TapeVolume) list
   \<Rightarrow> (string \<times> (string \<times> TapeVolume) list) option" where
  "allocate_scan now pool' density' [] = None"
| "allocate_scan now pool' density' ((volser', vol) # m) =
     (if is_available_for_scratch now vol
         \<and> \<not> (pool' \<noteq> [] \<and> pool vol \<noteq> pool')
         \<and> \<not> (density' \<noteq> None \<and> Some (density vol) \<noteq> density')
      then Some (volser', (volser', vol\<lparr>status := PRIVATE, last_used := now\<rparr>) # m)
      else (case allocate_scan now pool' density' m of
              None \<Rightarrow> None
            | Some (r, m') \<Rightarrow> Some (r, (volser', vol) # m')))"

definition allocate_scratch_volume ::
  "time_point \<Rightarrow> string \<Rightarrow> TapeDensity option \<Rightarrow> TMSSystem \<Rightarrow> (ErrorInfo + string) \<times> TMSSystem" where
  "allocate_scratch_volume now pool' density' s =
     (case allocate_scan now pool' density' (volumes_m s) of
        Some (volser', m') \<Rightarrow>
          (Inr volser', add_audit_record now ''ALLOCATE_SCRATCH'' volser' (''Pool: '' @ pool')
                          (s\<lparr>volumes_m := m'\<rparr>))
      | None \<Rightarrow> (err NO_SCRATCH_AVAILABLE ''No scratch volumes available'', s))"

subsection \<open>Batch operations\<close>

text \<open>\<^verbatim>\<open>struct BatchResult\<close> without its \<^verbatim>\<open>duration\<close> (elapsed real time).\<close>

record BatchResult =
  total :: nat
  succeeded :: nat
  failed :: nat
  skipped :: nat
  failures :: "(string \<times> string) list"

text \<open>
  The loop of \<^verbatim>\<open>add_volumes_batch\<close>. Each call of \<^verbatim>\<open>add_volume\<close> reads the clock anew:
  \<open>now i\<close> is the instant of the call for the item at index \<open>i\<close>.
\<close>

fun add_volumes_loop ::
  "Configuration \<Rightarrow> (nat \<Rightarrow> time_point) \<Rightarrow> nat \<Rightarrow> TapeVolume list
   \<Rightarrow> BatchResult \<Rightarrow> TMSSystem \<Rightarrow> BatchResult \<times> TMSSystem" where
  "add_volumes_loop cfg now i [] result s = (result, s)"
| "add_volumes_loop cfg now i (vol # vols) result s =
     (case add_volume cfg (now i) vol s of
        (Inr _, s') \<Rightarrow>
          add_volumes_loop cfg now (Suc i) vols (result\<lparr>succeeded := succeeded result + 1\<rparr>) s'
      | (Inl e, s') \<Rightarrow>
          add_volumes_loop cfg now (Suc i) vols
            (result\<lparr>failed := failed result + 1,
                    failures := failures result @ [(volser vol, message e)]\<rparr>) s')"

definition add_volumes_batch ::
  "Configuration \<Rightarrow> (nat \<Rightarrow> time_point) \<Rightarrow> TapeVolume list \<Rightarrow> TMSSystem
   \<Rightarrow> BatchResult \<times> TMSSystem" where
  "add_volumes_batch cfg now volumes s =
     add_volumes_loop cfg now 0 volumes
       \<lparr>total = length volumes, succeeded = 0, failed = 0, skipped = 0, failures = []\<rparr> s"

subsection \<open>Parallel batch operations\<close>

text \<open>\<^verbatim>\<open>constexpr size_t MAX_PARALLEL_OPERATIONS = 16\<close> (tms\_version.h).\<close>

definition MAX_PARALLEL_OPERATIONS :: nat where
  "MAX_PARALLEL_OPERATIONS = 16"

text \<open>
  \<^verbatim>\<open>parallel_add_volumes(volumes, thread_count)\<close> lowers \<open>thread_count\<close> to the number of
  items and to \<open>MAX_PARALLEL_OPERATIONS\<close>, sets \<open>chunk_size = volumes.size() / thread_count\<close>
  and starts one thread per \<open>t < thread_count\<close> on the indices from \<open>t * chunk_size\<close> up to
  \<open>(t + 1) * chunk_size\<close>, the last thread up to \<open>volumes.size()\<close>. \<open>worker_ranges\<close> gives
  these pairs \<open>(start_idx, end_idx)\<close>. A \<open>thread_count\<close> of zero with items present
  divides by zero in the source: that is \<open>None\<close>.
\<close>

definition worker_ranges :: "nat \<Rightarrow> nat \<Rightarrow> (nat \<times> nat) list option" where
  "worker_ranges thread_count n =
     (let tc = min (min thread_count n) MAX_PARALLEL_OPERATIONS
      in if tc = 0 then None
         else (let chunk_size = n div tc
               in Some (map (\<lambda>t. (t * chunk_size,
                                    if t = tc - 1 then n else (t + 1) * chunk_size))
                          [0..<tc])))"

text \<open>The items \<open>volumes[start_idx], \<dots>, volumes[end_idx - 1]\<close> that one worker adds, in
  its order.\<close>

definition worker_items :: "'a list \<Rightarrow> nat \<times> nat \<Rightarrow> 'a list" where
  "worker_items volumes r = take (snd r - fst r) (drop (fst r) volumes)"

text \<open>
  Each worker only calls \<open>add_volume\<close>, one item after the other. \<open>add_volume\<close> checks
  the limit and the key, stores the volume and updates the indices while it holds
  \<^verbatim>\<open>catalog_mutex_\<close> exclusively, so the calls of all workers on the catalog happen one at a
  time, in some order that keeps the order of each worker. \<open>interleaves shards schedule\<close>
  holds when \<open>schedule\<close> is such an order: at each step some worker whose next item is the
  head of the schedule takes it.
\<close>

fun interleaves :: "'a list list \<Rightarrow> 'a list \<Rightarrow> bool" where
  "interleaves shards [] = list_all (\<lambda>sh. sh = []) shards"
| "interleaves shards (x # xs) =
     list_ex (\<lambda>i. shards ! i \<noteq> [] \<and> hd (shards ! i) = x
                  \<and> interleaves (shards[i := tl (shards ! i)]) xs)
       [0..<length shards]"

definition parallel_schedule :: "nat \<Rightarrow> 'a list \<Rightarrow> 'a list \<Rightarrow> bool" where
  "parallel_schedule thread_count volumes schedule =
     (case worker_ranges thread_count (length volumes) of
        None \<Rightarrow> False
      | Some ranges \<Rightarrow> interleaves (map (worker_items volumes) ranges) schedule)"

text \<open>
  A run of \<open>parallel_add_volumes\<close> along a schedule: nothing happens on an empty input,
  otherwise \<open>add_volume\<close> is applied along the schedule, \<open>now i\<close> being the clock reading
  of the \<open>i\<close>-th call. The counters are atomic and end as in the sequential loop. Two
  simplifications do not touch the maps and the indices of the catalog: the program appends
  to \<open>failures\<close> and to the audit log after \<open>add_volume\<close> has released the catalog lock,
  so these two lists may come in another merge of the workers' orders than the one of the
  schedule.
\<close>

definition parallel_add_volumes ::
  "Configuration \<Rightarrow> (nat \<Rightarrow> time_point) \<Rightarrow> TapeVolume list \<Rightarrow> TapeVolume list \<Rightarrow> TMSSystem
   \<Rightarrow> BatchResult \<times> TMSSystem" where
  "parallel_add_volumes cfg now volumes schedule s =
     (if volumes = []
      then (\<lparr>total = length volumes, succeeded = 0, failed = 0, skipped = 0, failures = []\<rparr>, s)
      else add_volumes_loop cfg now 0 schedule
             \<lparr>total = length volumes, succeeded = 0, failed = 0, skipped = 0, failures = []\<rparr> s)"

section \<open>Default-constructed values\<close>

text \<open>A \<^verbatim>\<open>TapeVolume\<close> and a \<^verbatim>\<open>Dataset\<close> with the member initialisers of the structs and
  the given keys, and the limits that \<^verbatim>\<open>configuration.cpp\<close> sets by default.\<close>

definition TapeVolume_new :: "string \<Rightarrow> TapeVolume" where
  "TapeVolume_new v =
     \<lparr>volser = v, status = SCRATCH, density = DENSITY_LTO3, pool = [], owner = [],
      creation_date = 0, expiration_date = 0, last_used = 0, capacity_bytes = 0,
      used_bytes = 0, datasets = [], tags = [], reserved_by = [], reservation_expires = 0,
      last_health_check = 0\<rparr>"

definition Dataset_new :: "string \<Rightarrow> string \<Rightarrow> Dataset" where
  "Dataset_new n v =
     \<lparr>ds_name = n, ds_volser = v, ds_status = ACTIVE, size_bytes = 0, ds_owner = [],
      ds_creation_date = 0, ds_expiration_date = 0, ds_tags = []\<rparr>"

definition default_config :: Configuration where
  "default_config = \<lparr>max_volumes = 100000, max_datasets = 1000000\<rparr>"

section \<open>Predicates of the specification\<close>

text \<open>The eligibility of a volume for scratch allocation, in the words of the
  specification: status \<open>SCRATCH\<close>, not reserved, not expired, and matching the pool and
  density filters (an empty pool name and an absent density match every volume).\<close>

definition scratch_candidate ::
  "time_point \<Rightarrow> string \<Rightarrow> TapeDensity option \<Rightarrow> TapeVolume \<Rightarrow> bool" where
  "scratch_candidate now pool' density' vol =
     (status vol = SCRATCH \<and> \<not> is_reserved now vol \<and> \<not> is_expired now vol
      \<and> (pool' = [] \<or> pool vol = pool')
      \<and> (density' = None \<or> density' = Some (density vol)))"

section \<open>Sequences of catalog calls\<close>

text \<open>The six add, update and delete operations on volumes and datasets as calls, and
  the catalog after a sequence of them; a failed call leaves the state it returns.\<close>

datatype catalog_call =
    Add_volume Configuration time_point TapeVolume
  | Update_volume time_point TapeVolume
  | Delete_volume time_point string bool
  | Add_dataset Configuration time_point Dataset
  | Update_dataset time_point Dataset
  | Delete_dataset time_point string

fun apply_call :: "catalog_call \<Rightarrow> TMSSystem \<Rightarrow> TMSSystem" where
  "apply_call (Add_volume cfg now volume) s = snd (add_volume cfg now volume s)"
| "apply_call (Update_volume now volume) s = snd (update_volume now volume s)"
| "apply_call (Delete_volume now volser' force) s = snd (delete_volume now volser' force s)"
| "apply_call (Add_dataset cfg now dataset) s = snd (add_dataset cfg now dataset s)"
| "apply_call (Update_dataset now dataset) s = snd (update_dataset now dataset s)"
| "apply_call (Delete_dataset now name) s = snd (delete_dataset now name s)"

definition run_calls :: "catalog_call list \<Rightarrow> TMSSystem \<Rightarrow> TMSSystem" where
  "run_calls calls s = fold apply_call calls s"

section \<open>Consistency of the secondary indices with the primary maps\<close>

text \<open>
  Soundness: every key stored in an index under a value is the key of a stored record that
  has this value of the attribute (for the tag indices: among its tags).
  Completeness: a stored record is found in the index under each of its non-empty
  attribute values. The \<open>lookups\<close> predicates say the same of the results of the indexed
  lookup functions.
\<close>

definition volume_indices_sound :: "TMSSystem \<Rightarrow> bool" where
  "volume_indices_sound s =
     (\<forall>a k.
        (k \<in> set (SecondaryIndex_find a (volume_owner_index_m s))
           \<longrightarrow> (\<exists>v. map_find k (volumes_m s) = Some v \<and> owner v = a))
      \<and> (k \<in> set (SecondaryIndex_find a (volume_pool_index_m s))
           \<longrightarrow> (\<exists>v. map_find k (volumes_m s) = Some v \<and> pool v = a))
      \<and> (k \<in> set (SecondaryIndex_find a (volume_tag_index_m s))
           \<longrightarrow> (\<exists>v. map_find k (volumes_m s) = Some v \<and> a \<in> set (tags v))))"

definition volume_indices_complete :: "TMSSystem \<Rightarrow> bool" where
  "volume_indices_complete s =
     (\<forall>k v. map_find k (volumes_m s) = Some v \<longrightarrow>
        (owner v \<noteq> [] \<longrightarrow> k \<in> set (SecondaryIndex_find (owner v) (volume_owner_index_m s)))
      \<and> (pool v \<noteq> [] \<longrightarrow> k \<in> set (SecondaryIndex_find (pool v) (volume_pool_index_m s)))
      \<and> (\<forall>t \<in> set (tags v). t \<noteq> [] \<longrightarrow>
             k \<in> set (SecondaryIndex_find t (volume_tag_index_m s))))"

definition volume_lookups_complete :: "TMSSystem \<Rightarrow> bool" where
  "volume_lookups_complete s =
     (\<forall>k v. map_find k (volumes_m s) = Some v \<longrightarrow>
        (owner v \<noteq> [] \<longrightarrow> v \<in> set (get_volumes_by_owner (owner v) s))
      \<and> (pool v \<noteq> [] \<longrightarrow> v \<in> set (get_volumes_by_pool (pool v) s))
      \<and> (\<forall>t \<in> set (tags v). t \<noteq> [] \<longrightarrow> v \<in> set (find_volumes_by_tag t s)))"

definition dataset_indices_sound :: "TMSSystem \<Rightarrow> bool" where
  "dataset_indices_sound s =
     (\<forall>a k.
        (k \<in> set (SecondaryIndex_find a (dataset_owner_index_m s))
           \<longrightarrow> (\<exists>d. map_find k (datasets_m s) = Some d \<and> ds_owner d = a))
      \<and> (k \<in> set (SecondaryIndex_find a (dataset_tag_index_m s))
           \<longrightarrow> (\<exists>d. map_find k (datasets_m s) = Some d \<and> a \<in> set (ds_tags d))))"

definition dataset_indices_complete :: "TMSSystem \<Rightarrow> bool" where
  "dataset_indices_complete s =
     (\<forall>k d. map_find k (datasets_m s) = Some d \<longrightarrow>
        (ds_owner d \<noteq> [] \<longrightarrow> k \<in> set (SecondaryIndex_find (ds_owner d) (dataset_owner_index_m s)))
      \<and> (\<forall>t \<in> set (ds_tags d). t \<noteq> [] \<longrightarrow>
             k \<in> set (SecondaryIndex_find t (dataset_tag_index_m s))))"

definition dataset_lookups_complete :: "TMSSystem \<Rightarrow> bool" where
  "dataset_lookups_complete s =
     (\<forall>k d. map_find k (datasets_m s) = Some d \<longrightarrow>
        (ds_owner d \<noteq> [] \<longrightarrow> d \<in> set (get_datasets_by_owner (ds_owner d) s))
      \<and> (\<forall>t \<in> set (ds_tags d). t \<noteq> [] \<longrightarrow> d \<in> set (find_datasets_by_tag t s)))"

text \<open>
  The form used in the proofs: an index holds key \<open>k\<close> under value \<open>a\<close> exactly when the
  record stored under \<open>k\<close> has \<open>a\<close> among its attribute values \<open>attrs\<close> and \<open>a\<close> is not
  empty.
\<close>

definition idx_agrees :: "(string \<times> 'v) list \<Rightarrow> ('v \<Rightarrow> string list) \<Rightarrow> SecondaryIndex \<Rightarrow> bool" where
  "idx_agrees m attrs ix =
     (\<forall>a k. k \<in> set (SecondaryIndex_find a ix)
            \<longleftrightarrow> (\<exists>v. map_find k m = Some v \<and> a \<in> set (attrs v) \<and> a \<noteq> []))"

definition volume_indices_agree :: "TMSSystem \<Rightarrow> bool" where
  "volume_indices_agree s =
     (idx_agrees (volumes_m s) (\<lambda>v. [owner v]) (volume_owner_index_m s)
      \<and> idx_agrees (volumes_m s) (\<lambda>v. [pool v]) (volume_pool_index_m s)
      \<and> idx_agrees (volumes_m s) tags (volume_tag_index_m s))"

definition dataset_indices_agree :: "TMSSystem \<Rightarrow> bool" where
  "dataset_indices_agree s =
     (idx_agrees (datasets_m s) (\<lambda>d. [ds_owner d]) (dataset_owner_index_m s)
      \<and> idx_agrees (datasets_m s) ds_tags (dataset_tag_index_m s))"

definition indices_agree :: "TMSSystem \<Rightarrow> bool" where
  "indices_agree s = (volume_indices_agree s \<and> dataset_indices_agree s)"

section \<open>Bookkeeping of used bytes\<close>

text \<open>
  The sum of \<open>size_bytes\<close> (as natural numbers) over the datasets stored on a volume, that
  is, the entries of the dataset map whose \<open>volser\<close> is the key of the volume; and the
  invariant that the \<open>used_bytes\<close> of every volume is that sum.
\<close>

definition dataset_bytes_on :: "string \<Rightarrow> (string \<times> Dataset) list \<Rightarrow> nat" where
  "dataset_bytes_on volser' m =
     sum_list (map (\<lambda>nd. unat (size_bytes (snd nd)))
                 (filter (\<lambda>nd. ds_volser (snd nd) = volser') m))"

definition used_bytes_exact :: "TMSSystem \<Rightarrow> bool" where
  "used_bytes_exact s =
     (\<forall>k v. map_find k (volumes_m s) = Some v
        \<longrightarrow> unat (used_bytes v) = dataset_bytes_on k (datasets_m s))"

text \<open>The calls of \<open>add_dataset\<close> and \<open>delete_dataset\<close>; an \<open>add_dataset\<close> call fits when
  it fails or the volume it names has room for the size below \<open>2 ^ 64\<close>; a sequence fits
  when each of its calls fits in the state in which it is made.\<close>

definition dataset_add_delete :: "catalog_call \<Rightarrow> bool" where
  "dataset_add_delete c =
     (case c of Add_dataset cfg now dataset \<Rightarrow> True | Delete_dataset now name \<Rightarrow> True
      | _ \<Rightarrow> False)"

definition add_fits_u64 :: "catalog_call \<Rightarrow> TMSSystem \<Rightarrow> bool" where
  "add_fits_u64 c s =
     (case c of
        Add_dataset cfg now dataset \<Rightarrow>
          (case map_find (ds_volser dataset) (volumes_m s) of
             None \<Rightarrow> True
           | Some vol \<Rightarrow>
               is_success (fst (add_dataset cfg now dataset s))
               \<longrightarrow> unat (used_bytes vol) + unat (size_bytes dataset) < 2 ^ 64)
      | _ \<Rightarrow> True)"

fun all_adds_fit_u64 :: "catalog_call list \<Rightarrow> TMSSystem \<Rightarrow> bool" where
  "all_adds_fit_u64 [] s = True"
| "all_adds_fit_u64 (c # cs) s = (add_fits_u64 c s \<and> all_adds_fit_u64 cs (apply_call c s))"

section \<open>Comparing a parallel and a sequential batch\<close>

text \<open>A stored volume without the three fields that \<open>add_volume\<close> may fill from the clock.\<close>

definition without_clock_fields :: "TapeVolume \<Rightarrow> TapeVolume" where
  "without_clock_fields vol = vol\<lparr>creation_date := 0, expiration_date := 0, last_health_check := 0\<rparr>"

text \<open>What a batch leaves under the key of one of its items, when the keys of the items
  are pairwise distinct and the limit is not reached: the volume that was there before, or
  else the item with the defaults of \<open>add_volume\<close> at the instant \<open>now j\<close> of its call, or
  nothing when the volser is invalid.\<close>

definition batch_stored :: "(nat \<Rightarrow> time_point) \<Rightarrow> nat \<Rightarrow> TMSSystem \<Rightarrow> TapeVolume \<Rightarrow> TapeVolume option" where
  "batch_stored now j s v =
     (case map_find (volser v) (volumes_m s) of
        Some old \<Rightarrow> Some old
      | None \<Rightarrow> if validate_volser (volser v) then Some (add_volume_defaults (now j) v) else None)"

section \<open>Audit log: pruning on overflow\<close>

lemma add_records_append:
  "add_records (rs @ [r]) al = AuditLog_add r (add_records rs al)"
  by (induction rs arbitrary: al) simp_all

lemma add_records_below_capacity:
  "length (records_m al) + length rs \<le> max_records_m al \<Longrightarrow>
   add_records rs al = al\<lparr>records_m := records_m al @ rs\<rparr>"
proof (induction rs arbitrary: al)
  case Nil
  then show ?case by simp
next
  case (Cons r rs)
  have step: "AuditLog_add r al = al\<lparr>records_m := records_m al @ [r]\<rparr>"
    using Cons.prems by (simp add: AuditLog_add_def Let_def)
  show ?case
    using Cons.prems Cons.IH [of "al\<lparr>records_m := records_m al @ [r]\<rparr>"]
    by (simp add: step)
qed

text \<open>
  C4, as the code has it. From an empty log of capacity \<open>max_records\<close>, inserting
  \<open>max_records + 1\<close> records leaves \<open>max_records + 1 - max_records div 5\<close> records (the
  record that overflows the log is appended before the oldest fifth is erased), and the
  counter of pruned records grows by exactly \<open>max_records div 5\<close>.
\<close>

theorem audit_overflow_prunes_one_fifth:
  assumes "records_m al = []" and "length rs = max_records_m al + 1"
  shows "AuditLog_size (add_records rs al) = max_records_m al + 1 - max_records_m al div 5
         \<and> pruned_count (add_records rs al) = pruned_count_m al + max_records_m al div 5
         \<and> max_records_m (add_records rs al) = max_records_m al"
proof -
  from assms(2) obtain rs' r where rs: "rs = rs' @ [r]" and len: "length rs' = max_records_m al"
    by (cases rs rule: rev_cases) auto
  have pre: "add_records rs' al = al\<lparr>records_m := rs'\<rparr>"
    using add_records_below_capacity [of al rs'] assms(1) len by simp
  have "add_records rs al = AuditLog_add r (al\<lparr>records_m := rs'\<rparr>)"
    by (simp add: rs add_records_append pre)
  then show ?thesis
    using len
    by (auto simp: AuditLog_add_def prune_def Let_def AuditLog_size_def pruned_count_def)
qed

text \<open>Witness for C4: a log of capacity 10 receives 11 records; 9 remain, 2 were pruned.\<close>

theorem audit_overflow_prunes_one_fifth_witness:
  "AuditLog_size (add_records (replicate 11 \<lparr>timestamp = 0, operation = ''ADD_VOLUME'',
       user = ''SYSTEM'', target = ''V00001'', details = [], success = True,
       source_ip = [], session_id = []\<rparr>) (AuditLog_new 10)) = 9
   \<and> pruned_count (add_records (replicate 11 \<lparr>timestamp = 0, operation = ''ADD_VOLUME'',
       user = ''SYSTEM'', target = ''V00001'', details = [], success = True,
       source_ip = [], session_id = []\<rparr>) (AuditLog_new 10)) = 2"
  using audit_overflow_prunes_one_fifth [of "AuditLog_new 10"
      "replicate 11 \<lparr>timestamp = 0, operation = ''ADD_VOLUME'',
       user = ''SYSTEM'', target = ''V00001'', details = [], success = True,
       source_ip = [], session_id = []\<rparr>"]
  by (simp add: AuditLog_new_def)

text \<open>
  Counterexample to C4 as stated: with capacity 10, after 11 insertions the log holds 9
  records, not \<open>10 - 10 div 5 = 8\<close>.
\<close>

theorem audit_overflow_size_counterexample:
  "AuditLog_size (add_records (replicate 11 \<lparr>timestamp = 0, operation = ''ADD_VOLUME'',
       user = ''SYSTEM'', target = ''V00001'', details = [], success = True,
       source_ip = [], session_id = []\<rparr>) (AuditLog_new 10)) \<noteq> 10 - 10 div 5"
  by code_simp

section \<open>Basic facts about the containers and the results\<close>

lemma map_find_assign [simp]:
  "map_find k' (map_assign k v m) = (if k' = k then Some v else map_find k' m)"
  by (induction m) (auto simp: map_find_def)

lemma map_find_erase [simp]:
  "map_find k' (map_erase k m) = (if k' = k then None else map_find k' m)"
  by (induction m) (auto simp: map_find_def map_erase_def)

lemma map_find_Nil [simp]: "map_find k [] = None"
  by (simp add: map_find_def)

lemma add_audit_record_fields [simp]:
  "volumes_m (add_audit_record now a b c s) = volumes_m s"
  "datasets_m (add_audit_record now a b c s) = datasets_m s"
  "volume_owner_index_m (add_audit_record now a b c s) = volume_owner_index_m s"
  "volume_pool_index_m (add_audit_record now a b c s) = volume_pool_index_m s"
  "volume_tag_index_m (add_audit_record now a b c s) = volume_tag_index_m s"
  "dataset_owner_index_m (add_audit_record now a b c s) = dataset_owner_index_m s"
  "dataset_tag_index_m (add_audit_record now a b c s) = dataset_tag_index_m s"
  "current_user_m (add_audit_record now a b c s) = current_user_m s"
  by (simp_all add: add_audit_record_def)

lemma result_simps [simp]:
  "is_success (err c msg) = False" "is_success ok = True" "is_success (Inr x) = True"
  "is_error (err c msg) = True" "is_error ok = False" "is_error (Inr x) = False"
  "error_code (err c msg) = Some c" "error_code (Inr x) = None"
  by (simp_all add: is_success_def is_error_def error_code_def err_def ok_def)

lemma add_volume_defaults_fields [simp]:
  "volser (add_volume_defaults now v) = volser v"
  "status (add_volume_defaults now v) = status v"
  "density (add_volume_defaults now v) = density v"
  "pool (add_volume_defaults now v) = pool v"
  "owner (add_volume_defaults now v) = owner v"
  "tags (add_volume_defaults now v) = tags v"
  "datasets (add_volume_defaults now v) = datasets v"
  "used_bytes (add_volume_defaults now v) = used_bytes v"
  "reserved_by (add_volume_defaults now v) = reserved_by v"
  "reservation_expires (add_volume_defaults now v) = reservation_expires v"
  by (simp_all add: add_volume_defaults_def Let_def)

lemma add_dataset_defaults_fields [simp]:
  "ds_name (add_dataset_defaults now d) = ds_name d"
  "ds_volser (add_dataset_defaults now d) = ds_volser d"
  "ds_status (add_dataset_defaults now d) = ds_status d"
  "size_bytes (add_dataset_defaults now d) = size_bytes d"
  "ds_owner (add_dataset_defaults now d) = ds_owner d"
  "ds_tags (add_dataset_defaults now d) = ds_tags d"
  by (simp_all add: add_dataset_defaults_def Let_def)

lemma add_volume_success:
  assumes "add_volume cfg now v s = (Inr u, s')"
  shows "s' = add_audit_record now ''ADD_VOLUME'' (volser v)
                (''Status: '' @ volume_status_to_string (status v))
                (add_volume_store (add_volume_defaults now v) s)"
    and "map_find (volser v) (volumes_m s) = None"
    and "validate_volser (volser v)" and "map_size (volumes_m s) < max_volumes cfg"
  using assms
  by (auto simp: add_volume_def err_def ok_def Let_def map_count_def
      split: if_splits option.splits)

lemma add_dataset_success:
  assumes "add_dataset cfg now d s = (Inr u, s')"
  shows "\<exists>vol. map_find (ds_volser d) (volumes_m s) = Some vol \<and>
           s' = add_audit_record now ''ADD_DATASET'' (ds_name d) (''Volume: '' @ ds_volser d)
                  (add_dataset_store (add_dataset_defaults now d) vol s)"
    and "map_find (ds_name d) (datasets_m s) = None"
  using assms
  by (auto simp: add_dataset_def err_def ok_def Let_def map_count_def
      split: if_splits option.splits)

text \<open>The definitions that evaluate an operation on a concrete catalog.\<close>

lemmas catalog_eval =
  add_volume_def validate_volser_def MAX_VOLSER_LENGTH_def isalnum_def
  TapeVolume_new_def TMSSystem_new_def default_config_def map_size_def map_count_def
  add_volume_defaults_def add_volume_store_def Let_def add_audit_record_def
  add_dataset_def validate_dataset_name_def MAX_DATASET_NAME_LENGTH_def Dataset_new_def
  add_dataset_defaults_def add_dataset_store_def ok_def err_def SecondaryIndex_add_def
  map_find_def

section \<open>Reservations\<close>

text \<open>
  C10. When the reservation of a volume has expired (\<open>reserved_by\<close> is not empty, but
  \<open>reservation_expires\<close> is not after \<open>now\<close>), \<open>reserve_volume\<close> by another user
  succeeds on that very state, with no sweep of expired reservations in between, and the
  new user and the new expiry replace the stale ones.
\<close>

theorem reserve_after_expiry:
  assumes "map_find k (volumes_m s) = Some vol"
    and "reserved_by vol \<noteq> []" and "reservation_expires vol \<le> now"
    and "user' \<noteq> reserved_by vol"
  shows "is_success (fst (reserve_volume now k user' d s))
         \<and> map_find k (volumes_m (snd (reserve_volume now k user' d s)))
             = Some (vol\<lparr>reserved_by := user', reservation_expires := now + seconds d\<rparr>)"
  using assms by (simp add: reserve_volume_def is_reserved_def)

text \<open>Witness for C10: the reservation of alice ended at 5000; bob reserves at 6000.\<close>

theorem reserve_after_expiry_witness:
  "is_success (fst (reserve_volume 6000 ''V1'' ''bob'' 60
      (TMSSystem_new\<lparr>volumes_m := [(''V1'', (TapeVolume_new ''V1'')
          \<lparr>reserved_by := ''alice'', reservation_expires := 5000\<rparr>)]\<rparr>)))
   \<and> map_find ''V1'' (volumes_m (snd (reserve_volume 6000 ''V1'' ''bob'' 60
      (TMSSystem_new\<lparr>volumes_m := [(''V1'', (TapeVolume_new ''V1'')
          \<lparr>reserved_by := ''alice'', reservation_expires := 5000\<rparr>)]\<rparr>))))
     = Some ((TapeVolume_new ''V1'')\<lparr>reserved_by := ''bob'',
                                       reservation_expires := 6000 + seconds 60\<rparr>)"
  using reserve_after_expiry [of "''V1''"
      "TMSSystem_new\<lparr>volumes_m := [(''V1'', (TapeVolume_new ''V1'')
          \<lparr>reserved_by := ''alice'', reservation_expires := 5000\<rparr>)]\<rparr>"
      "(TapeVolume_new ''V1'')\<lparr>reserved_by := ''alice'', reservation_expires := 5000\<rparr>"
      6000 "''bob''" 60]
  by (simp add: map_find_def TMSSystem_new_def)

text \<open>
  C5, as the code has it. While user \<open>a\<close> holds an unexpired reservation of a volume,
  \<open>reserve_volume\<close> by another user \<open>b\<close> fails with the code \<open>VOLUME_RESERVED\<close> and
  \<open>release_volume\<close> by \<open>b\<close> fails with \<open>ACCESS_DENIED\<close>, both leaving the state as it
  was; \<open>release_volume\<close> by \<open>a\<close> succeeds and clears \<open>reserved_by\<close> and
  \<open>reservation_expires\<close>; after that, \<open>reserve_volume\<close> by \<open>b\<close> succeeds.
\<close>

theorem reservation_exclusive:
  assumes "map_find k (volumes_m s) = Some vol"
    and "reserved_by vol = a" and "a \<noteq> []" and "reservation_expires vol > now" and "b \<noteq> a"
  shows "reserve_volume now k b d s = (err VOLUME_RESERVED (''Volume reserved by: '' @ a), s)
       \<and> release_volume now k b s = (err ACCESS_DENIED (''Cannot release: reserved by '' @ a), s)
       \<and> is_success (fst (release_volume now k a s))
       \<and> map_find k (volumes_m (snd (release_volume now k a s)))
           = Some (vol\<lparr>reserved_by := [], reservation_expires := 0\<rparr>)
       \<and> is_success (fst (reserve_volume now' k b d' (snd (release_volume now k a s))))
       \<and> map_find k (volumes_m (snd (reserve_volume now' k b d' (snd (release_volume now k a s)))))
           = Some (vol\<lparr>reserved_by := b, reservation_expires := now' + seconds d'\<rparr>)"
  using assms by (simp add: reserve_volume_def release_volume_def is_reserved_def)

text \<open>Witness for C5: alice holds \<open>V1\<close> until 5000; bob tries at 1000, alice releases at
  1000, bob reserves at 2000.\<close>

theorem reservation_exclusive_witness:
  "error_code (fst (reserve_volume 1000 ''V1'' ''bob'' 3600
      (TMSSystem_new\<lparr>volumes_m := [(''V1'', (TapeVolume_new ''V1'')
          \<lparr>reserved_by := ''alice'', reservation_expires := 5000\<rparr>)]\<rparr>))) = Some VOLUME_RESERVED
   \<and> error_code (fst (release_volume 1000 ''V1'' ''bob''
      (TMSSystem_new\<lparr>volumes_m := [(''V1'', (TapeVolume_new ''V1'')
          \<lparr>reserved_by := ''alice'', reservation_expires := 5000\<rparr>)]\<rparr>))) = Some ACCESS_DENIED
   \<and> is_success (fst (release_volume 1000 ''V1'' ''alice''
      (TMSSystem_new\<lparr>volumes_m := [(''V1'', (TapeVolume_new ''V1'')
          \<lparr>reserved_by := ''alice'', reservation_expires := 5000\<rparr>)]\<rparr>)))
   \<and> is_success (fst (reserve_volume 2000 ''V1'' ''bob'' 3600 (snd (release_volume 1000 ''V1'' ''alice''
      (TMSSystem_new\<lparr>volumes_m := [(''V1'', (TapeVolume_new ''V1'')
          \<lparr>reserved_by := ''alice'', reservation_expires := 5000\<rparr>)]\<rparr>)))))"
  using reservation_exclusive [of "''V1''"
      "TMSSystem_new\<lparr>volumes_m := [(''V1'', (TapeVolume_new ''V1'')
          \<lparr>reserved_by := ''alice'', reservation_expires := 5000\<rparr>)]\<rparr>"
      "(TapeVolume_new ''V1'')\<lparr>reserved_by := ''alice'', reservation_expires := 5000\<rparr>"
      "''alice''" 1000 "''bob''" 3600 2000 3600]
  by (simp add: map_find_def TMSSystem_new_def)

text \<open>
  Counterexample to C5 as stated: \<open>V1\<close> is added, alice reserves it for 3600 seconds, and
  the reservation attempt of bob fails with \<open>VOLUME_RESERVED\<close>, not with \<open>ACCESS_DENIED\<close>.
\<close>

theorem reserve_other_user_code_counterexample:
  "error_code (fst (reserve_volume 2000 ''V1'' ''bob'' 3600
      (snd (reserve_volume 1000 ''V1'' ''alice'' 3600
         (snd (add_volume default_config 0 (TapeVolume_new ''V1'') TMSSystem_new))))))
     = Some VOLUME_RESERVED
   \<and> error_code (fst (reserve_volume 2000 ''V1'' ''bob'' 3600
      (snd (reserve_volume 1000 ''V1'' ''alice'' 3600
         (snd (add_volume default_config 0 (TapeVolume_new ''V1'') TMSSystem_new))))))
     \<noteq> Some ACCESS_DENIED"
  by (simp add: catalog_eval reserve_volume_def is_reserved_def seconds_def error_code_def)

section \<open>Lifecycle round trip of a volume\<close>

text \<open>
  C6. A volume is added with status \<open>SCRATCH\<close> and no dataset names; a dataset is added
  on it: the volume is \<open>PRIVATE\<close>. Deleting that dataset right away succeeds and the
  volume is \<open>SCRATCH\<close> again.
\<close>

theorem scratch_private_round_trip:
  assumes addv: "add_volume cfg t0 v s0 = (Inr (), s1)"
    and scr: "status v = SCRATCH" and emp: "datasets v = []"
    and addd: "add_dataset cfg t1 d s1 = (Inr (), s2)" and on: "ds_volser d = volser v"
  shows "(\<exists>vol2. map_find (volser v) (volumes_m s2) = Some vol2 \<and> status vol2 = PRIVATE)
       \<and> (\<exists>s3 vol3. delete_dataset t2 (ds_name d) s2 = (Inr (), s3)
              \<and> map_find (volser v) (volumes_m s3) = Some vol3 \<and> status vol3 = SCRATCH)"
proof -
  let ?v1 = "add_volume_defaults t0 v"
  let ?d1 = "add_dataset_defaults t1 d"
  have v1: "map_find (volser v) (volumes_m s1) = Some ?v1"
    using add_volume_success(1) [OF addv] by (simp add: add_volume_store_def)
  from add_dataset_success(1) [OF addd] v1 on
  have s2: "s2 = add_audit_record t1 ''ADD_DATASET'' (ds_name d) (''Volume: '' @ ds_volser d)
                  (add_dataset_store ?d1 ?v1 s1)"
    by simp
  let ?v2 = "?v1\<lparr>datasets := datasets ?v1 @ [ds_name d],
                 used_bytes := used_bytes ?v1 + size_bytes ?d1,
                 status := (if status ?v1 = SCRATCH then PRIVATE else status ?v1)\<rparr>"
  have v2: "map_find (volser v) (volumes_m s2) = Some ?v2"
    by (simp add: s2 add_dataset_store_def on)
  have d2: "map_find (ds_name d) (datasets_m s2) = Some ?d1"
    by (simp add: s2 add_dataset_store_def)
  have p1: "status ?v2 = PRIVATE"
    by (simp add: scr)
  have del: "delete_dataset t2 (ds_name d) s2 =
        (Inr (), add_audit_record t2 ''DELETE_DATASET'' (ds_name d) ''Deleted''
                 (delete_dataset_erase (ds_name d) ?d1 s2))"
    by (simp add: delete_dataset_def d2 ok_def)
  have v3: "map_find (volser v)
         (volumes_m (delete_dataset_erase (ds_name d) ?d1 s2))
         = Some (delete_dataset_volume (ds_name d) ?d1 ?v2)"
    using v2 by (simp add: delete_dataset_erase_def on)
  have p3: "status (delete_dataset_volume (ds_name d) ?d1 ?v2) = SCRATCH"
    by (simp add: delete_dataset_volume_def Let_def scr emp)
  show ?thesis
    using v2 p1 del v3 p3 by simp
qed

text \<open>Witness for C6: volume \<open>V1\<close> and dataset \<open>D1\<close> on an empty catalog.\<close>

theorem scratch_private_round_trip_witness:
  "(\<exists>vol2. map_find ''V1'' (volumes_m (snd (add_dataset default_config 2000 (Dataset_new ''D1'' ''V1'')
        (snd (add_volume default_config 1000 (TapeVolume_new ''V1'') TMSSystem_new)))))
        = Some vol2 \<and> status vol2 = PRIVATE)
   \<and> (\<exists>s3 vol3. delete_dataset 3000 ''D1'' (snd (add_dataset default_config 2000 (Dataset_new ''D1'' ''V1'')
        (snd (add_volume default_config 1000 (TapeVolume_new ''V1'') TMSSystem_new))))
        = (Inr (), s3)
        \<and> map_find ''V1'' (volumes_m s3) = Some vol3 \<and> status vol3 = SCRATCH)"
proof -
  let ?s1 = "snd (add_volume default_config 1000 (TapeVolume_new ''V1'') TMSSystem_new)"
  have "fst (add_volume default_config 1000 (TapeVolume_new ''V1'') TMSSystem_new) = Inr ()"
    by (simp add: catalog_eval)
  then have h1: "add_volume default_config 1000 (TapeVolume_new ''V1'') TMSSystem_new
      = (Inr (), ?s1)"
    by (simp add: prod_eq_iff)
  have "fst (add_dataset default_config 2000 (Dataset_new ''D1'' ''V1'') ?s1) = Inr ()"
    by (simp add: catalog_eval)
  then have h2: "add_dataset default_config 2000 (Dataset_new ''D1'' ''V1'') ?s1
      = (Inr (), snd (add_dataset default_config 2000 (Dataset_new ''D1'' ''V1'') ?s1))"
    by (simp add: prod_eq_iff)
  show ?thesis
    using scratch_private_round_trip [OF h1 _ _ h2, of 3000]
    by (simp add: TapeVolume_new_def Dataset_new_def)
qed

section \<open>Scratch allocation\<close>

lemma map_ok_Nil [simp]: "map_ok []"
  by (simp add: map_ok_def)

lemma map_ok_Cons [simp]:
  "map_ok ((k, v) # m) = ((\<forall>k'\<in>fst ` set m. k < k') \<and> map_ok m)"
  by (auto simp: map_ok_def)

lemma map_find_Cons [simp]:
  "map_find k' ((k, v) # m) = (if k' = k then Some v else map_find k' m)"
  by (simp add: map_find_def)

lemma map_find_SomeD: "map_find k m = Some v \<Longrightarrow> k \<in> fst ` set m"
  by (auto simp: map_find_def dest: map_of_SomeD intro: rev_image_eqI)

lemma map_find_None_iff: "map_find k m = None \<longleftrightarrow> k \<notin> fst ` set m"
  by (simp add: map_find_def map_of_eq_None_iff)

lemma allocate_scan_keys:
  "allocate_scan now p d m = Some (r, m') \<Longrightarrow> map fst m' = map fst m"
  by (induction m arbitrary: m') (auto split: if_splits option.splits)

lemma allocate_scan_None:
  "allocate_scan now p d m = None \<Longrightarrow> map_find k m = Some v \<Longrightarrow> \<not> scratch_candidate now p d v"
  by (induction m) (auto simp: scratch_candidate_def is_available_for_scratch_def
      split: if_splits option.splits)

lemma allocate_scan_Some:
  assumes "map_ok m" and "allocate_scan now p d m = Some (r, m')"
  shows "\<exists>v. map_find r m = Some v \<and> scratch_candidate now p d v
           \<and> (\<forall>k' v'. map_find k' m = Some v' \<and> scratch_candidate now p d v' \<longrightarrow> r \<le> k')
           \<and> map_find r m' = Some (v\<lparr>status := PRIVATE, last_used := now\<rparr>)
           \<and> (\<forall>k'. k' \<noteq> r \<longrightarrow> map_find k' m' = map_find k' m)"
  using assms
proof (induction m arbitrary: m')
  case Nil
  then show ?case by simp
next
  case (Cons kv m)
  obtain k v where kv: "kv = (k, v)" by (cases kv)
  show ?case
  proof (cases "scratch_candidate now p d v")
    case True
    then have here: "r = k" "m' = (k, v\<lparr>status := PRIVATE, last_used := now\<rparr>) # m"
      using Cons.prems(2)
      by (auto simp: kv scratch_candidate_def is_available_for_scratch_def)
    have "\<forall>k' v'. map_find k' (kv # m) = Some v' \<longrightarrow> k \<le> k'"
      using Cons.prems(1) by (auto simp: kv dest!: map_find_SomeD)
    then show ?thesis
      using True by (simp add: here kv)
  next
    case False
    then obtain m0 where rec: "allocate_scan now p d m = Some (r, m0)" and m': "m' = (k, v) # m0"
      using Cons.prems(2)
      by (auto simp: kv scratch_candidate_def is_available_for_scratch_def
          split: option.splits if_splits)
    have ok: "map_ok m" using Cons.prems(1) by (simp add: kv)
    from Cons.IH [OF ok rec] obtain w where w:
      "map_find r m = Some w" "scratch_candidate now p d w"
      "\<forall>k' v'. map_find k' m = Some v' \<and> scratch_candidate now p d v' \<longrightarrow> r \<le> k'"
      "map_find r m0 = Some (w\<lparr>status := PRIVATE, last_used := now\<rparr>)"
      "\<forall>k'. k' \<noteq> r \<longrightarrow> map_find k' m0 = map_find k' m"
      by blast
    have ne: "r \<noteq> k"
      using Cons.prems(1) map_find_SomeD [OF w(1)] by (auto simp: kv)
    show ?thesis
      using w ne False by (auto simp: kv m')
  qed
qed

text \<open>
  C1. On a catalog whose volume map is ordered by key: when some volume is eligible
  (status \<open>SCRATCH\<close>, not reserved, not expired, pool and density filters matched),
  \<open>allocate_scratch_volume\<close> returns the least volser among the eligible volumes, that
  volume becomes \<open>PRIVATE\<close> (its \<open>last_used\<close> is set to \<open>now\<close>) and every other volume
  is as before; when no volume is eligible, the call fails with \<open>NO_SCRATCH_AVAILABLE\<close>
  and the state is unchanged.
\<close>

theorem allocate_scratch_lowest_volser:
  assumes "map_ok (volumes_m s)"
  shows "((\<exists>k v. map_find k (volumes_m s) = Some v \<and> scratch_candidate now p d v) \<longrightarrow>
          (\<exists>k v. fst (allocate_scratch_volume now p d s) = Inr k
             \<and> map_find k (volumes_m s) = Some v \<and> scratch_candidate now p d v
             \<and> (\<forall>k' v'. map_find k' (volumes_m s) = Some v' \<and> scratch_candidate now p d v'
                    \<longrightarrow> k \<le> k')
             \<and> map_find k (volumes_m (snd (allocate_scratch_volume now p d s)))
                 = Some (v\<lparr>status := PRIVATE, last_used := now\<rparr>)
             \<and> (\<forall>k'. k' \<noteq> k \<longrightarrow>
                    map_find k' (volumes_m (snd (allocate_scratch_volume now p d s)))
                    = map_find k' (volumes_m s))))
       \<and> (\<not> (\<exists>k v. map_find k (volumes_m s) = Some v \<and> scratch_candidate now p d v) \<longrightarrow>
            allocate_scratch_volume now p d s
            = (err NO_SCRATCH_AVAILABLE ''No scratch volumes available'', s))"
proof (cases "allocate_scan now p d (volumes_m s)")
  case None
  then show ?thesis
    using allocate_scan_None [OF None]
    by (auto simp: allocate_scratch_volume_def)
next
  case (Some a)
  obtain r m' where a: "a = (r, m')" by (cases a)
  from allocate_scan_Some [OF assms Some [unfolded a]]
  show ?thesis
    by (auto simp: allocate_scratch_volume_def Some a)
qed

text \<open>Witness for C1: \<open>B01\<close> and \<open>A01\<close> are added as \<open>SCRATCH\<close>, \<open>C01\<close> as \<open>PRIVATE\<close>;
  the allocation returns \<open>A01\<close>.\<close>

theorem allocate_scratch_lowest_volser_witness:
  "map_ok (volumes_m (snd (add_volume default_config 3 ((TapeVolume_new ''C01'')\<lparr>status := PRIVATE\<rparr>)
       (snd (add_volume default_config 2 (TapeVolume_new ''A01'')
          (snd (add_volume default_config 1 (TapeVolume_new ''B01'') TMSSystem_new)))))))
   \<and> fst (allocate_scratch_volume 5000 [] None
       (snd (add_volume default_config 3 ((TapeVolume_new ''C01'')\<lparr>status := PRIVATE\<rparr>)
       (snd (add_volume default_config 2 (TapeVolume_new ''A01'')
          (snd (add_volume default_config 1 (TapeVolume_new ''B01'') TMSSystem_new))))))) = Inr ''A01''"
proof -
  let ?s = "snd (add_volume default_config 3 ((TapeVolume_new ''C01'')\<lparr>status := PRIVATE\<rparr>)
       (snd (add_volume default_config 2 (TapeVolume_new ''A01'')
          (snd (add_volume default_config 1 (TapeVolume_new ''B01'') TMSSystem_new)))))"
  have keys: "map fst (volumes_m ?s) = [''A01'', ''B01'', ''C01'']"
    by (simp add: catalog_eval)
  have ok: "map_ok (volumes_m ?s)"
    by (simp add: map_ok_def keys)
  have a: "map_find ''A01'' (volumes_m ?s) = Some (add_volume_defaults 2 (TapeVolume_new ''A01''))"
    by (simp add: catalog_eval)
  have cand: "scratch_candidate 5000 [] None (add_volume_defaults 2 (TapeVolume_new ''A01''))"
    by (simp add: scratch_candidate_def is_reserved_def is_expired_def add_volume_defaults_def
        TapeVolume_new_def hours_def seconds_def)
  from allocate_scratch_lowest_volser [OF ok, of 5000 "[]" None] a cand
  obtain k v where k: "fst (allocate_scratch_volume 5000 [] None ?s) = Inr k"
    "map_find k (volumes_m ?s) = Some v" "k \<le> ''A01''"
    by blast
  from k(2) have "k \<in> set (map fst (volumes_m ?s))"
    using map_find_SomeD by fastforce
  then have "k = ''A01''"
    using k(3) unfolding keys by auto
  then show ?thesis
    using ok k(1) by simp
qed

section \<open>Secondary indices\<close>

lemma set_set_insert [simp]: "set (set_insert x xs) = insert x (set xs)"
  by (auto simp: set_insert_def set_insort_key)

lemma set_set_erase [simp]: "set (set_erase x xs) = set xs - {x}"
  by (auto simp: set_erase_def)

lemma find_add [simp]:
  "set (SecondaryIndex_find a (SecondaryIndex_add a' k ix)) =
     (if a' \<noteq> [] \<and> a = a' then insert k (set (SecondaryIndex_find a ix))
      else set (SecondaryIndex_find a ix))"
  by (auto simp: SecondaryIndex_find_def SecondaryIndex_add_def split: option.splits)

lemma set_erase_Nil: "set_erase k ks = [] \<Longrightarrow> set ks - {k} = {}"
  using set_set_erase [of k ks] by simp

lemma find_remove [simp]:
  "set (SecondaryIndex_find a (SecondaryIndex_remove a' k ix)) =
     (if a = a' then set (SecondaryIndex_find a ix) - {k}
      else set (SecondaryIndex_find a ix))"
proof (cases "map_find a' ix")
  case None
  then show ?thesis
    by (auto simp: SecondaryIndex_find_def SecondaryIndex_remove_def)
next
  case (Some ks)
  show ?thesis
  proof (cases "set_erase k ks = []")
    case True
    then show ?thesis
      using Some set_erase_Nil [OF True]
      by (auto simp: SecondaryIndex_find_def SecondaryIndex_remove_def)
  next
    case False
    then show ?thesis
      using Some
      by (auto simp: SecondaryIndex_find_def SecondaryIndex_remove_def)
  qed
qed

lemma find_update [simp]:
  "set (SecondaryIndex_find a (SecondaryIndex_update old new k ix)) =
     (if new \<noteq> [] \<and> a = new then insert k (set (SecondaryIndex_find a ix))
      else if a = old then set (SecondaryIndex_find a ix) - {k}
      else set (SecondaryIndex_find a ix))"
  by (auto simp: SecondaryIndex_update_def)

lemma find_fold_add_if:
  "set (SecondaryIndex_find a
          (fold (\<lambda>t ix. if P t then SecondaryIndex_add t k ix else ix) ts ix)) =
     (if a \<noteq> [] \<and> a \<in> set ts \<and> P a then insert k (set (SecondaryIndex_find a ix))
      else set (SecondaryIndex_find a ix))"
  by (induction ts arbitrary: ix) auto

lemma find_fold_remove_if:
  "set (SecondaryIndex_find a
          (fold (\<lambda>t ix. if P t then SecondaryIndex_remove t k ix else ix) ts ix)) =
     (if a \<in> set ts \<and> P a then set (SecondaryIndex_find a ix) - {k}
      else set (SecondaryIndex_find a ix))"
  by (induction ts arbitrary: ix) auto

lemma find_fold_add [simp]:
  "set (SecondaryIndex_find a (fold (\<lambda>t. SecondaryIndex_add t k) ts ix)) =
     (if a \<noteq> [] \<and> a \<in> set ts then insert k (set (SecondaryIndex_find a ix))
      else set (SecondaryIndex_find a ix))"
  using find_fold_add_if [of a "\<lambda>_. True" k ts ix] by simp

lemma find_fold_remove [simp]:
  "set (SecondaryIndex_find a (fold (\<lambda>t. SecondaryIndex_remove t k) ts ix)) =
     (if a \<in> set ts then set (SecondaryIndex_find a ix) - {k}
      else set (SecondaryIndex_find a ix))"
  using find_fold_remove_if [of a "\<lambda>_. True" k ts ix] by simp

lemma find_Nil [simp]: "SecondaryIndex_find a [] = []"
  by (simp add: SecondaryIndex_find_def)

lemma idx_agrees_empty: "idx_agrees [] attrs []"
  by (simp add: idx_agrees_def)

lemma idx_agrees_insert:
  assumes "idx_agrees m attrs ix" and "map_find k m = None"
  shows "idx_agrees (map_assign k v m) attrs (fold (\<lambda>t. SecondaryIndex_add t k) (attrs v) ix)"
  using assms unfolding idx_agrees_def by auto

lemma idx_agrees_erase:
  assumes "idx_agrees m attrs ix" and "map_find k m = Some v"
  shows "idx_agrees (map_erase k m) attrs (fold (\<lambda>t. SecondaryIndex_remove t k) (attrs v) ix)"
  using assms unfolding idx_agrees_def by auto

lemma idx_agrees_delta:
  assumes "idx_agrees m attrs ix" and "map_find k m = Some old"
  shows "idx_agrees (map_assign k new m) attrs
           (fold (\<lambda>t ix. if t \<notin> set (attrs old) then SecondaryIndex_add t k ix else ix) (attrs new)
              (fold (\<lambda>t ix. if t \<notin> set (attrs new) then SecondaryIndex_remove t k ix else ix)
                 (attrs old) ix))"
  using assms unfolding idx_agrees_def by (auto simp: find_fold_add_if find_fold_remove_if)

lemma idx_agrees_single_update:
  assumes "idx_agrees m (\<lambda>v. [f v]) ix" and "map_find k m = Some old"
  shows "idx_agrees (map_assign k new m) (\<lambda>v. [f v])
           (if f old \<noteq> f new then SecondaryIndex_update (f old) (f new) k ix else ix)"
  using assms unfolding idx_agrees_def by auto

lemma idx_agrees_same_attrs:
  assumes "idx_agrees m attrs ix" and "map_find k m = Some v" and "attrs v' = attrs v"
  shows "idx_agrees (map_assign k v' m) attrs ix"
  using assms unfolding idx_agrees_def by auto

lemmas indices_agree_defs = indices_agree_def volume_indices_agree_def dataset_indices_agree_def

lemma indices_agree_audit [simp]:
  "indices_agree (add_audit_record now a b c s) = indices_agree s"
  by (simp add: indices_agree_defs)

lemma indices_agree_new: "indices_agree TMSSystem_new"
  by (simp add: indices_agree_defs TMSSystem_new_def idx_agrees_empty)

lemma indices_agree_add_volume_store:
  assumes "indices_agree s" and "map_find (volser vol) (volumes_m s) = None"
  shows "indices_agree (add_volume_store vol s)"
  using assms idx_agrees_insert [of "volumes_m s" "\<lambda>v. [owner v]" _ "volser vol" vol]
    idx_agrees_insert [of "volumes_m s" "\<lambda>v. [pool v]" _ "volser vol" vol]
    idx_agrees_insert [of "volumes_m s" tags _ "volser vol" vol]
  by (simp add: indices_agree_defs add_volume_store_def)

lemma indices_agree_update_volume_store:
  assumes "indices_agree s" and "map_find (volser volume) (volumes_m s) = Some old"
  shows "indices_agree (update_volume_store old volume s)"
  using assms idx_agrees_single_update [of "volumes_m s" owner _ "volser volume" old volume]
    idx_agrees_single_update [of "volumes_m s" pool _ "volser volume" old volume]
    idx_agrees_delta [of "volumes_m s" tags _ "volser volume" old volume]
  by (simp add: indices_agree_defs update_volume_store_def)

lemma erase_listed_dataset_volume_fields [simp]:
  "volumes_m (erase_listed_dataset n s) = volumes_m s"
  "volume_owner_index_m (erase_listed_dataset n s) = volume_owner_index_m s"
  "volume_pool_index_m (erase_listed_dataset n s) = volume_pool_index_m s"
  "volume_tag_index_m (erase_listed_dataset n s) = volume_tag_index_m s"
  by (simp_all add: erase_listed_dataset_def split: option.splits)

lemma fold_erase_listed_volume_fields [simp]:
  "volumes_m (fold erase_listed_dataset ns s) = volumes_m s"
  "volume_owner_index_m (fold erase_listed_dataset ns s) = volume_owner_index_m s"
  "volume_pool_index_m (fold erase_listed_dataset ns s) = volume_pool_index_m s"
  "volume_tag_index_m (fold erase_listed_dataset ns s) = volume_tag_index_m s"
  by (induction ns arbitrary: s) simp_all

lemma dataset_indices_agree_erase_listed:
  assumes "dataset_indices_agree s"
  shows "dataset_indices_agree (erase_listed_dataset n s)"
proof (cases "map_find n (datasets_m s)")
  case None
  then show ?thesis using assms by (simp add: erase_listed_dataset_def)
next
  case (Some ds)
  show ?thesis
    using assms Some idx_agrees_erase [of "datasets_m s" "\<lambda>d. [ds_owner d]" _ n ds]
      idx_agrees_erase [of "datasets_m s" ds_tags _ n ds]
    by (simp add: dataset_indices_agree_def erase_listed_dataset_def)
qed

lemma dataset_indices_agree_fold_erase_listed:
  "dataset_indices_agree s \<Longrightarrow> dataset_indices_agree (fold erase_listed_dataset ns s)"
  by (induction ns arbitrary: s) (simp_all add: dataset_indices_agree_erase_listed)

lemma indices_agree_delete_volume_erase:
  assumes "indices_agree s" and "map_find k (volumes_m s) = Some vol"
  shows "indices_agree (delete_volume_erase k vol force s)"
proof -
  let ?s1 = "s\<lparr>volume_owner_index_m :=
                   SecondaryIndex_remove (owner vol) k (volume_owner_index_m s),
                 volume_pool_index_m :=
                   SecondaryIndex_remove (pool vol) k (volume_pool_index_m s),
                 volume_tag_index_m :=
                   fold (\<lambda>tag. SecondaryIndex_remove tag k) (tags vol) (volume_tag_index_m s)\<rparr>"
  let ?s2 = "if force then fold erase_listed_dataset (datasets vol) ?s1 else ?s1"
  have "dataset_indices_agree ?s1"
    using assms(1) by (simp add: indices_agree_defs)
  then have d2: "dataset_indices_agree ?s2"
    by (simp add: dataset_indices_agree_fold_erase_listed)
  have v: "idx_agrees (map_erase k (volumes_m s)) (\<lambda>v. [owner v]) (volume_owner_index_m ?s1)
      \<and> idx_agrees (map_erase k (volumes_m s)) (\<lambda>v. [pool v]) (volume_pool_index_m ?s1)
      \<and> idx_agrees (map_erase k (volumes_m s)) tags (volume_tag_index_m ?s1)"
    using assms idx_agrees_erase [of "volumes_m s" "\<lambda>v. [owner v]" _ k vol]
      idx_agrees_erase [of "volumes_m s" "\<lambda>v. [pool v]" _ k vol]
      idx_agrees_erase [of "volumes_m s" tags _ k vol]
    by (simp add: indices_agree_defs)
  have eq: "delete_volume_erase k vol force s = ?s2\<lparr>volumes_m := map_erase k (volumes_m ?s2)\<rparr>"
    by (simp add: delete_volume_erase_def Let_def)
  have "volume_indices_agree (?s2\<lparr>volumes_m := map_erase k (volumes_m ?s2)\<rparr>)"
    using v by (simp add: volume_indices_agree_def)
  moreover have "dataset_indices_agree (?s2\<lparr>volumes_m := map_erase k (volumes_m ?s2)\<rparr>)"
    using d2 by (simp add: dataset_indices_agree_def)
  ultimately show ?thesis
    unfolding eq indices_agree_def by blast
qed

lemma indices_agree_add_dataset_store:
  assumes "indices_agree s" and "map_find (ds_name ds) (datasets_m s) = None"
    and "map_find (ds_volser ds) (volumes_m s) = Some vol"
  shows "indices_agree (add_dataset_store ds vol s)"
  using assms idx_agrees_insert [of "datasets_m s" "\<lambda>d. [ds_owner d]" _ "ds_name ds" ds]
    idx_agrees_insert [of "datasets_m s" ds_tags _ "ds_name ds" ds]
    idx_agrees_same_attrs [of "volumes_m s" "\<lambda>v. [owner v]" _ "ds_volser ds" vol]
    idx_agrees_same_attrs [of "volumes_m s" "\<lambda>v. [pool v]" _ "ds_volser ds" vol]
    idx_agrees_same_attrs [of "volumes_m s" tags _ "ds_volser ds" vol]
  by (simp add: indices_agree_defs add_dataset_store_def)

lemma indices_agree_update_dataset_store:
  assumes "indices_agree s" and "map_find (ds_name dataset) (datasets_m s) = Some old"
  shows "indices_agree (update_dataset_store old dataset s)"
  using assms idx_agrees_single_update [of "datasets_m s" ds_owner _ "ds_name dataset" old dataset]
    idx_agrees_delta [of "datasets_m s" ds_tags _ "ds_name dataset" old dataset]
  by (simp add: indices_agree_defs update_dataset_store_def)

lemma delete_dataset_volume_attrs [simp]:
  "owner (delete_dataset_volume n ds vol) = owner vol"
  "pool (delete_dataset_volume n ds vol) = pool vol"
  "tags (delete_dataset_volume n ds vol) = tags vol"
  "volser (delete_dataset_volume n ds vol) = volser vol"
  by (simp_all add: delete_dataset_volume_def Let_def)

lemma indices_agree_delete_dataset_erase:
  assumes "indices_agree s" and "map_find n (datasets_m s) = Some ds"
  shows "indices_agree (delete_dataset_erase n ds s)"
proof (cases "map_find (ds_volser ds) (volumes_m s)")
  case None
  then show ?thesis
    using assms idx_agrees_erase [of "datasets_m s" "\<lambda>d. [ds_owner d]" _ n ds]
      idx_agrees_erase [of "datasets_m s" ds_tags _ n ds]
    by (simp add: indices_agree_defs delete_dataset_erase_def)
next
  case (Some vol)
  then show ?thesis
    using assms idx_agrees_erase [of "datasets_m s" "\<lambda>d. [ds_owner d]" _ n ds]
      idx_agrees_erase [of "datasets_m s" ds_tags _ n ds]
      idx_agrees_same_attrs [of "volumes_m s" "\<lambda>v. [owner v]" _ "ds_volser ds" vol
        "delete_dataset_volume n ds vol"]
      idx_agrees_same_attrs [of "volumes_m s" "\<lambda>v. [pool v]" _ "ds_volser ds" vol
        "delete_dataset_volume n ds vol"]
      idx_agrees_same_attrs [of "volumes_m s" tags _ "ds_volser ds" vol
        "delete_dataset_volume n ds vol"]
    by (simp add: indices_agree_defs delete_dataset_erase_def)
qed

lemma indices_agree_apply_call:
  assumes "indices_agree s"
  shows "indices_agree (apply_call c s)"
proof (cases c)
  case (Add_volume cfg now volume)
  show ?thesis
    using assms indices_agree_add_volume_store [of s "add_volume_defaults now volume"]
    by (auto simp: Add_volume add_volume_def Let_def map_count_def split: option.splits)
next
  case (Update_volume now volume)
  show ?thesis
    using assms indices_agree_update_volume_store [of s volume]
    by (auto simp: Update_volume update_volume_def split: option.splits)
next
  case (Delete_volume now k force)
  show ?thesis
    using assms indices_agree_delete_volume_erase [of s k]
    by (auto simp: Delete_volume delete_volume_def split: option.splits)
next
  case (Add_dataset cfg now dataset)
  show ?thesis
    using assms indices_agree_add_dataset_store [of s "add_dataset_defaults now dataset"]
    by (auto simp: Add_dataset add_dataset_def Let_def map_count_def split: option.splits)
next
  case (Update_dataset now dataset)
  show ?thesis
    using assms indices_agree_update_dataset_store [of s dataset]
    by (auto simp: Update_dataset update_dataset_def split: option.splits)
next
  case (Delete_dataset now n)
  show ?thesis
    using assms indices_agree_delete_dataset_erase [of s n]
    by (auto simp: Delete_dataset delete_dataset_def split: option.splits)
qed

lemma indices_agree_run_calls:
  "indices_agree s \<Longrightarrow> indices_agree (run_calls calls s)"
  unfolding run_calls_def
  by (induction calls arbitrary: s) (simp_all add: indices_agree_apply_call)

lemma indices_agree_sound:
  assumes "indices_agree s"
  shows "volume_indices_sound s" and "dataset_indices_sound s"
  using assms
  by (auto simp: indices_agree_defs idx_agrees_def volume_indices_sound_def
      dataset_indices_sound_def)

lemma indices_agree_complete:
  assumes "indices_agree s"
  shows "volume_indices_complete s" and "dataset_indices_complete s"
  using assms
  by (auto simp: indices_agree_defs idx_agrees_def volume_indices_complete_def
      dataset_indices_complete_def)

lemma in_set_map_filter:
  "k \<in> set ks \<Longrightarrow> f k = Some v \<Longrightarrow> v \<in> set (List.map_filter f ks)"
  by (auto simp: List.map_filter_def intro: rev_image_eqI)

lemma volume_lookups_from_complete:
  "volume_indices_complete s \<Longrightarrow> volume_lookups_complete s"
  by (auto simp: volume_indices_complete_def volume_lookups_complete_def
      get_volumes_by_owner_def get_volumes_by_pool_def find_volumes_by_tag_def
      intro!: in_set_map_filter)

lemma dataset_lookups_from_complete:
  "dataset_indices_complete s \<Longrightarrow> dataset_lookups_complete s"
  by (auto simp: dataset_indices_complete_def dataset_lookups_complete_def
      get_datasets_by_owner_def find_datasets_by_tag_def
      intro!: in_set_map_filter)

text \<open>
  C2, as the code has it. After every sequence of add, update and delete calls on volumes
  and datasets, starting from the empty catalog: every key stored in the owner, pool or tag
  index of the volumes under a value belongs to a stored volume with that owner, pool or
  tag; every stored volume is in the index under its owner, its pool and each of its tags,
  and is returned by \<open>get_volumes_by_owner\<close>, \<open>get_volumes_by_pool\<close> and
  \<open>find_volumes_by_tag\<close> for them, provided the value is not the empty string
  (\<open>SecondaryIndex::add\<close> skips empty values); likewise for the owner and tag indices of
  the datasets.
\<close>

theorem index_consistency_nonempty_values:
  "volume_indices_sound (run_calls calls TMSSystem_new)
   \<and> volume_indices_complete (run_calls calls TMSSystem_new)
   \<and> volume_lookups_complete (run_calls calls TMSSystem_new)
   \<and> dataset_indices_sound (run_calls calls TMSSystem_new)
   \<and> dataset_indices_complete (run_calls calls TMSSystem_new)
   \<and> dataset_lookups_complete (run_calls calls TMSSystem_new)"
proof -
  have "indices_agree (run_calls calls TMSSystem_new)"
    by (rule indices_agree_run_calls [OF indices_agree_new])
  then show ?thesis
    by (simp add: indices_agree_sound indices_agree_complete
        volume_lookups_from_complete dataset_lookups_from_complete)
qed

text \<open>Witness for C2: \<open>V1\<close> is added for owner ALICE and updated to owner CAROL; it
  is found under CAROL and no longer indexed under ALICE.\<close>

theorem index_consistency_nonempty_values_witness:
  "map_find ''V1'' (volumes_m (run_calls
       [Add_volume default_config 1000 ((TapeVolume_new ''V1'')\<lparr>owner := ''ALICE''\<rparr>),
        Update_volume 2000 ((TapeVolume_new ''V1'')\<lparr>owner := ''CAROL''\<rparr>)] TMSSystem_new))
     = Some ((TapeVolume_new ''V1'')\<lparr>owner := ''CAROL''\<rparr>)
   \<and> (TapeVolume_new ''V1'')\<lparr>owner := ''CAROL''\<rparr> \<in> set (get_volumes_by_owner ''CAROL'' (run_calls
       [Add_volume default_config 1000 ((TapeVolume_new ''V1'')\<lparr>owner := ''ALICE''\<rparr>),
        Update_volume 2000 ((TapeVolume_new ''V1'')\<lparr>owner := ''CAROL''\<rparr>)] TMSSystem_new))
   \<and> ''V1'' \<notin> set (SecondaryIndex_find ''ALICE'' (volume_owner_index_m (run_calls
       [Add_volume default_config 1000 ((TapeVolume_new ''V1'')\<lparr>owner := ''ALICE''\<rparr>),
        Update_volume 2000 ((TapeVolume_new ''V1'')\<lparr>owner := ''CAROL''\<rparr>)] TMSSystem_new)))"
proof -
  let ?s = "run_calls
       [Add_volume default_config 1000 ((TapeVolume_new ''V1'')\<lparr>owner := ''ALICE''\<rparr>),
        Update_volume 2000 ((TapeVolume_new ''V1'')\<lparr>owner := ''CAROL''\<rparr>)] TMSSystem_new"
  let ?v = "(TapeVolume_new ''V1'')\<lparr>owner := ''CAROL''\<rparr>"
  have h: "map_find ''V1'' (volumes_m ?s) = Some ?v"
    by (simp add: run_calls_def catalog_eval update_volume_def update_volume_store_def)
  have o: "owner ?v = ''CAROL''"
    by (simp add: TapeVolume_new_def)
  from index_consistency_nonempty_values [of
       "[Add_volume default_config 1000 ((TapeVolume_new ''V1'')\<lparr>owner := ''ALICE''\<rparr>),
        Update_volume 2000 ((TapeVolume_new ''V1'')\<lparr>owner := ''CAROL''\<rparr>)]"]
  have l: "volume_lookups_complete ?s" and snd: "volume_indices_sound ?s"
    by simp_all
  have a: "?v \<in> set (get_volumes_by_owner ''CAROL'' ?s)"
    using l h o unfolding volume_lookups_complete_def by fastforce
  have b: "''V1'' \<notin> set (SecondaryIndex_find ''ALICE'' (volume_owner_index_m ?s))"
    using snd h o unfolding volume_indices_sound_def by fastforce
  show ?thesis
    using h a b by blast
qed

text \<open>Counterexample to C2 as stated: a volume added with an empty owner is stored, and
  \<open>get_volumes_by_owner\<close> of its owner does not contain it.\<close>

theorem index_lookup_empty_owner_counterexample:
  "map_find ''V1'' (volumes_m (run_calls [Add_volume default_config 1000 (TapeVolume_new ''V1'')]
       TMSSystem_new))
     = Some (add_volume_defaults 1000 (TapeVolume_new ''V1''))
   \<and> add_volume_defaults 1000 (TapeVolume_new ''V1'')
       \<notin> set (get_volumes_by_owner (owner (add_volume_defaults 1000 (TapeVolume_new ''V1'')))
            (run_calls [Add_volume default_config 1000 (TapeVolume_new ''V1'')] TMSSystem_new))"
  by (simp add: run_calls_def catalog_eval get_volumes_by_owner_def SecondaryIndex_find_def
      List.map_filter_def)

section \<open>Deleting a volume\<close>

lemma erase_listed_dataset_find [simp]:
  "map_find n (datasets_m (erase_listed_dataset n0 s))
     = (if n = n0 then None else map_find n (datasets_m s))"
  by (auto simp: erase_listed_dataset_def split: option.splits)

lemma fold_erase_listed_find [simp]:
  "map_find n (datasets_m (fold erase_listed_dataset ns s))
     = (if n \<in> set ns then None else map_find n (datasets_m s))"
  by (induction ns arbitrary: s) auto














section \<open>Sequential batch of add\_volume\<close>

lemma length_map_assign_new:
  "map_find k m = None \<Longrightarrow> length (map_assign k v m) = Suc (length m)"
  by (induction m) (auto simp: map_find_def split: if_splits)

lemma add_volume_failure_state:
  "fst (add_volume cfg now v s) = Inl e \<Longrightarrow> snd (add_volume cfg now v s) = s"
  by (auto simp: add_volume_def Let_def ok_def split: if_splits)

lemma add_volumes_loop_append:
  "add_volumes_loop cfg now i (xs @ ys) res s =
     add_volumes_loop cfg now (i + length xs) ys
       (fst (add_volumes_loop cfg now i xs res s)) (snd (add_volumes_loop cfg now i xs res s))"
  by (induction xs arbitrary: i res s) (auto split: prod.splits sum.splits)

lemma add_volumes_loop_state:
  "snd (add_volumes_loop cfg now i vols res s) = snd (add_volumes_loop cfg now i vols res' s)"
  by (induction vols arbitrary: i res res' s) (auto split: prod.splits sum.splits)

lemma add_volumes_loop_counts:
  "total (fst (add_volumes_loop cfg now i vols res s)) = total res
   \<and> skipped (fst (add_volumes_loop cfg now i vols res s)) = skipped res
   \<and> succeeded (fst (add_volumes_loop cfg now i vols res s))
       + failed (fst (add_volumes_loop cfg now i vols res s))
       = succeeded res + failed res + length vols
   \<and> length (failures (fst (add_volumes_loop cfg now i vols res s)))
       + failed res
       = length (failures res) + failed (fst (add_volumes_loop cfg now i vols res s))
   \<and> set (failures res) \<subseteq> set (failures (fst (add_volumes_loop cfg now i vols res s)))"
proof (induction vols arbitrary: i res s)
  case Nil
  show ?case by simp
next
  case (Cons v vols)
  obtain r s' where a: "add_volume cfg (now i) v s = (r, s')"
    by (cases "add_volume cfg (now i) v s")
  show ?case
  proof (cases r)
    case (Inl e)
    show ?thesis
      using Cons.IH [of "Suc i" "res\<lparr>failed := failed res + 1,
                    failures := failures res @ [(volser v, message e)]\<rparr>" s']
      by (auto simp: a Inl)
  next
    case (Inr u)
    show ?thesis
      using Cons.IH [of "Suc i" "res\<lparr>succeeded := succeeded res + 1\<rparr>" s']
      by (auto simp: a Inr)
  qed
qed

lemma add_volumes_loop_step:
  assumes "i < length vols"
  shows "snd (add_volumes_loop cfg now 0 (take (Suc i) vols) res s)
           = snd (add_volume cfg (now i) (vols ! i)
                    (snd (add_volumes_loop cfg now 0 (take i vols) res s)))"
proof -
  have "take (Suc i) vols = take i vols @ [vols ! i]"
    using assms by (simp add: take_Suc_conv_app_nth)
  then show ?thesis
    using assms
    by (auto simp: add_volumes_loop_append min_def split: prod.splits sum.splits)
qed

lemma add_volumes_loop_failure_recorded:
  assumes "i < length vols"
    and "fst (add_volume cfg (now i) (vols ! i)
                (snd (add_volumes_loop cfg now 0 (take i vols) res s))) = Inl e"
  shows "(volser (vols ! i), message e)
           \<in> set (failures (fst (add_volumes_loop cfg now 0 vols res s)))"
proof -
  let ?r1 = "fst (add_volumes_loop cfg now 0 (take i vols) res s)"
  let ?s1 = "snd (add_volumes_loop cfg now 0 (take i vols) res s)"
  let ?r2 = "?r1\<lparr>failed := failed ?r1 + 1,
                  failures := failures ?r1 @ [(volser (vols ! i), message e)]\<rparr>"
  have split: "vols = take i vols @ (vols ! i) # drop (Suc i) vols"
    using assms(1) by (simp add: id_take_nth_drop)
  obtain s' where a: "add_volume cfg (now i) (vols ! i) ?s1 = (Inl e, s')"
    using assms(2) by (cases "add_volume cfg (now i) (vols ! i) ?s1") auto
  have "add_volumes_loop cfg now 0 vols res s
      = add_volumes_loop cfg now i ((vols ! i) # drop (Suc i) vols) ?r1 ?s1"
    using add_volumes_loop_append [of cfg now 0 "take i vols" "(vols ! i) # drop (Suc i) vols" res s]
      split assms(1) by (simp add: min_def)
  also have "\<dots> = add_volumes_loop cfg now (Suc i) (drop (Suc i) vols) ?r2 s'"
    by (simp add: a)
  finally have eq: "add_volumes_loop cfg now 0 vols res s
      = add_volumes_loop cfg now (Suc i) (drop (Suc i) vols) ?r2 s'" .
  have "set (failures ?r2)
      \<subseteq> set (failures (fst (add_volumes_loop cfg now (Suc i) (drop (Suc i) vols) ?r2 s')))"
    using add_volumes_loop_counts [of cfg now "Suc i" "drop (Suc i) vols" ?r2 s'] by blast
  then show ?thesis
    unfolding eq by auto
qed


lemma add_volume_new_key:
  assumes "validate_volser (volser v)" and "length (volumes_m s) < max_volumes cfg"
    and "map_find (volser v) (volumes_m s) = None"
  shows "fst (add_volume cfg now v s) = Inr ()"
    and "volumes_m (snd (add_volume cfg now v s))
           = map_assign (volser v) (add_volume_defaults now v) (volumes_m s)"
  using assms
  by (simp_all add: add_volume_def map_size_def map_count_def Let_def ok_def
      add_volume_store_def)

lemma add_volume_existing_key:
  assumes "validate_volser (volser v)" and "length (volumes_m s) < max_volumes cfg"
    and "map_find (volser v) (volumes_m s) \<noteq> None"
  shows "add_volume cfg now v s
           = (err VOLUME_ALREADY_EXISTS (''Volume already exists: '' @ volser v), s)"
  using assms
  by (auto simp: add_volume_def map_size_def map_count_def split: option.splits)

lemma add_volumes_loop_valid_distinct:
  assumes "\<forall>v \<in> set vols. validate_volser (volser v)" and "distinct (map volser vols)"
    and "length (volumes_m s) + length vols \<le> max_volumes cfg"
  shows "succeeded (fst (add_volumes_loop cfg now i vols res s))
           = succeeded res + length (filter (\<lambda>v. map_find (volser v) (volumes_m s) = None) vols)
       \<and> failed (fst (add_volumes_loop cfg now i vols res s))
           = failed res + length (filter (\<lambda>v. map_find (volser v) (volumes_m s) \<noteq> None) vols)
       \<and> failures (fst (add_volumes_loop cfg now i vols res s))
           = failures res @ map (\<lambda>v. (volser v, ''Volume already exists: '' @ volser v))
               (filter (\<lambda>v. map_find (volser v) (volumes_m s) \<noteq> None) vols)
       \<and> (\<forall>v \<in> set vols.
             map_find (volser v) (volumes_m (snd (add_volumes_loop cfg now i vols res s))) \<noteq> None)
       \<and> (\<forall>k. k \<notin> volser ` set vols \<longrightarrow>
             map_find k (volumes_m (snd (add_volumes_loop cfg now i vols res s)))
               = map_find k (volumes_m s))"
  using assms
proof (induction vols arbitrary: i res s)
  case Nil
  show ?case by simp
next
  case (Cons v vols)
  have valid: "validate_volser (volser v)" and room: "length (volumes_m s) < max_volumes cfg"
    using Cons.prems by auto
  have rest: "\<forall>w \<in> set vols. validate_volser (volser w)" "distinct (map volser vols)"
    using Cons.prems by auto
  have nv: "volser v \<notin> volser ` set vols"
    using Cons.prems(2) by simp
  have fresh: "\<forall>w \<in> set vols. volser w \<noteq> volser v"
  proof (intro ballI notI)
    fix w
    assume "w \<in> set vols" and "volser w = volser v"
    then have "volser v \<in> volser ` set vols"
      by (metis imageI)
    with nv show False by contradiction
  qed
  show ?case
  proof (cases "map_find (volser v) (volumes_m s)")
    case None
    obtain s' where ok: "add_volume cfg (now i) v s = (Inr (), s')"
      using add_volume_new_key(1) [OF valid room None, of "now i"]
      by (cases "add_volume cfg (now i) v s") auto
    have vm: "volumes_m s' = map_assign (volser v) (add_volume_defaults (now i) v) (volumes_m s)"
      using add_volume_new_key(2) [OF valid room None, of "now i"] by (simp add: ok)
    have len: "length (volumes_m s') + length vols \<le> max_volumes cfg"
      using Cons.prems(3) by (simp add: vm length_map_assign_new [OF None])
    have same: "map_find (volser w) (volumes_m s') = map_find (volser w) (volumes_m s)"
      if "w \<in> set vols" for w
      using fresh that by (simp add: vm)
    have filt: "filter (\<lambda>w. map_find (volser w) (volumes_m s') = None) vols
                = filter (\<lambda>w. map_find (volser w) (volumes_m s) = None) vols"
      "filter (\<lambda>w. map_find (volser w) (volumes_m s') \<noteq> None) vols
                = filter (\<lambda>w. map_find (volser w) (volumes_m s) \<noteq> None) vols"
      using same by (auto intro: filter_cong)
    note ih = Cons.IH [OF rest len, of "Suc i" "res\<lparr>succeeded := succeeded res + 1\<rparr>",
        unfolded filt]
    let ?fin = "add_volumes_loop cfg now (Suc i) vols (res\<lparr>succeeded := succeeded res + 1\<rparr>) s'"
    have tail: "map_find k (volumes_m (snd ?fin))
        = (if k = volser v then Some (add_volume_defaults (now i) v) else map_find k (volumes_m s))"
      if "k \<notin> volser ` set vols" for k
      using ih [THEN conjunct2, THEN conjunct2, THEN conjunct2, THEN conjunct2, rule_format, OF that]
      by (simp add: vm)
    have here: "map_find (volser v) (volumes_m (snd ?fin)) \<noteq> None"
      using tail [OF nv] by simp
    have c1: "succeeded (fst ?fin) = succeeded res + 1
          + length (filter (\<lambda>w. map_find (volser w) (volumes_m s) = None) vols)"
      using ih by simp
    have c2: "failed (fst ?fin) = failed res
          + length (filter (\<lambda>w. map_find (volser w) (volumes_m s) \<noteq> None) vols)"
      using ih by simp
    have c3: "failures (fst ?fin) = failures res
          @ map (\<lambda>v. (volser v, ''Volume already exists: '' @ volser v))
              (filter (\<lambda>w. map_find (volser w) (volumes_m s) \<noteq> None) vols)"
      using ih by simp
    have c4: "\<forall>w \<in> set vols. map_find (volser w) (volumes_m (snd ?fin)) \<noteq> None"
      using ih by simp
    have c5: "\<forall>k. k \<notin> volser ` set (v # vols) \<longrightarrow>
          map_find k (volumes_m (snd ?fin)) = map_find k (volumes_m s)"
      using tail by simp
    have unf: "add_volumes_loop cfg now i (v # vols) res s = ?fin"
      by (simp add: ok)
    show ?thesis
      unfolding unf using c1 c2 c3 c4 c5 here None by (simp del: not_None_eq)
  next
    case (Some old)
    have fail: "add_volume cfg (now i) v s
        = (err VOLUME_ALREADY_EXISTS (''Volume already exists: '' @ volser v), s)"
      using add_volume_existing_key [OF valid room] Some by simp
    have len: "length (volumes_m s) + length vols \<le> max_volumes cfg"
      using Cons.prems(3) by simp
    let ?res' = "res\<lparr>failed := failed res + 1,
        failures := failures res @ [(volser v, ''Volume already exists: '' @ volser v)]\<rparr>"
    note ih = Cons.IH [OF rest len, of "Suc i" ?res']
    let ?fin = "add_volumes_loop cfg now (Suc i) vols ?res' s"
    have tail: "map_find k (volumes_m (snd ?fin)) = map_find k (volumes_m s)"
      if "k \<notin> volser ` set vols" for k
      using ih [THEN conjunct2, THEN conjunct2, THEN conjunct2, THEN conjunct2, rule_format, OF that]
      by simp
    have here: "map_find (volser v) (volumes_m (snd ?fin)) \<noteq> None"
      using tail [OF nv] Some by simp
    have c1: "succeeded (fst ?fin) = succeeded res
          + length (filter (\<lambda>w. map_find (volser w) (volumes_m s) = None) vols)"
      using ih by simp
    have c2: "failed (fst ?fin) = failed res + 1
          + length (filter (\<lambda>w. map_find (volser w) (volumes_m s) \<noteq> None) vols)"
      using ih by simp
    have c3: "failures (fst ?fin) = failures res
          @ (volser v, ''Volume already exists: '' @ volser v)
          # map (\<lambda>v. (volser v, ''Volume already exists: '' @ volser v))
              (filter (\<lambda>w. map_find (volser w) (volumes_m s) \<noteq> None) vols)"
      using ih by simp
    have c4: "\<forall>w \<in> set vols. map_find (volser w) (volumes_m (snd ?fin)) \<noteq> None"
      using ih by simp
    have c5: "\<forall>k. k \<notin> volser ` set (v # vols) \<longrightarrow>
          map_find k (volumes_m (snd ?fin)) = map_find k (volumes_m s)"
      using tail by simp
    have unf: "add_volumes_loop cfg now i (v # vols) res s = ?fin"
      by (simp add: fail err_def)
    show ?thesis
      unfolding unf using c1 c2 c3 c4 c5 here Some by (simp del: not_None_eq)
  qed
qed

lemma filter_single:
  assumes "distinct xs" and "x \<in> set xs" and "\<forall>y \<in> set xs. P y \<longleftrightarrow> y = x"
  shows "filter P xs = [x]" and "length (filter (\<lambda>y. \<not> P y) xs) = length xs - 1"
proof -
  have eq: "filter P xs = filter (\<lambda>y. y = x) xs"
    using assms(3) by (auto intro: filter_cong)
  have one: "filter (\<lambda>y. y = x) xs = [x]"
    using assms(1,2) by (induction xs) (auto simp: filter_empty_conv)
  show "filter P xs = [x]"
    by (simp add: eq one)
  then show "length (filter (\<lambda>y. \<not> P y) xs) = length xs - 1"
    using sum_length_filter_compl [of P xs] by simp
qed

text \<open>
  C8. \<open>add_volumes_batch\<close> calls \<open>add_volume\<close> for every item, in order, on the state
  left by the items before it, whether they failed or not. In the result, \<open>total\<close> is the
  number of items, \<open>succeeded + failed = total\<close>, \<open>failures\<close> has one entry per failed
  item, and a failed item appears in it with its volser and the message of its error.
  In particular, for items with valid, pairwise distinct volsers and room below the volume
  limit, exactly one of which (\<open>dup\<close>) is already in the catalog: all but one succeed, one
  fails, \<open>failures\<close> is the single entry of \<open>dup\<close>, and every item is in the catalog
  afterwards.
\<close>

theorem add_volumes_batch_partial_failure:
  "total (fst (add_volumes_batch cfg now vols s)) = length vols
   \<and> succeeded (fst (add_volumes_batch cfg now vols s))
       + failed (fst (add_volumes_batch cfg now vols s))
       = total (fst (add_volumes_batch cfg now vols s))
   \<and> length (failures (fst (add_volumes_batch cfg now vols s)))
       = failed (fst (add_volumes_batch cfg now vols s))
   \<and> (\<forall>i < length vols.
        snd (add_volumes_batch cfg now (take (Suc i) vols) s)
          = snd (add_volume cfg (now i) (vols ! i) (snd (add_volumes_batch cfg now (take i vols) s)))
        \<and> (\<forall>e. fst (add_volume cfg (now i) (vols ! i)
                       (snd (add_volumes_batch cfg now (take i vols) s))) = Inl e
              \<longrightarrow> (volser (vols ! i), message e)
                    \<in> set (failures (fst (add_volumes_batch cfg now vols s)))))
   \<and> ((\<forall>v \<in> set vols. validate_volser (volser v)) \<and> distinct (map volser vols)
        \<and> length (volumes_m s) + length vols \<le> max_volumes cfg
        \<and> dup \<in> set vols \<and> map_find (volser dup) (volumes_m s) \<noteq> None
        \<and> (\<forall>v \<in> set vols. v \<noteq> dup \<longrightarrow> map_find (volser v) (volumes_m s) = None)
       \<longrightarrow> succeeded (fst (add_volumes_batch cfg now vols s)) = length vols - 1
         \<and> failed (fst (add_volumes_batch cfg now vols s)) = 1
         \<and> failures (fst (add_volumes_batch cfg now vols s))
             = [(volser dup, ''Volume already exists: '' @ volser dup)]
         \<and> (\<forall>v \<in> set vols.
               map_find (volser v) (volumes_m (snd (add_volumes_batch cfg now vols s))) \<noteq> None))"
proof -
  let ?res0 = "\<lambda>n. \<lparr>total = n, succeeded = 0, failed = 0, skipped = 0, failures = []\<rparr>"
  have counts: "total (fst (add_volumes_batch cfg now vols s)) = length vols
     \<and> succeeded (fst (add_volumes_batch cfg now vols s))
         + failed (fst (add_volumes_batch cfg now vols s))
         = total (fst (add_volumes_batch cfg now vols s))
     \<and> length (failures (fst (add_volumes_batch cfg now vols s)))
         = failed (fst (add_volumes_batch cfg now vols s))"
    using add_volumes_loop_counts [of cfg now 0 vols "?res0 (length vols)" s]
    by (simp add: add_volumes_batch_def)
  have st: "snd (add_volumes_batch cfg now xs s)
      = snd (add_volumes_loop cfg now 0 xs (?res0 (length vols)) s)" for xs
    unfolding add_volumes_batch_def by (rule add_volumes_loop_state)
  have steps: "snd (add_volumes_batch cfg now (take (Suc i) vols) s)
          = snd (add_volume cfg (now i) (vols ! i) (snd (add_volumes_batch cfg now (take i vols) s)))
        \<and> (\<forall>e. fst (add_volume cfg (now i) (vols ! i)
                       (snd (add_volumes_batch cfg now (take i vols) s))) = Inl e
              \<longrightarrow> (volser (vols ! i), message e)
                    \<in> set (failures (fst (add_volumes_batch cfg now vols s))))"
    if "i < length vols" for i
    using add_volumes_loop_step [OF that, of cfg now "?res0 (length vols)" s]
      add_volumes_loop_failure_recorded [OF that, of cfg now "?res0 (length vols)" s]
    unfolding st by (simp add: add_volumes_batch_def)
  have part: "succeeded (fst (add_volumes_batch cfg now vols s)) = length vols - 1
         \<and> failed (fst (add_volumes_batch cfg now vols s)) = 1
         \<and> failures (fst (add_volumes_batch cfg now vols s))
             = [(volser dup, ''Volume already exists: '' @ volser dup)]
         \<and> (\<forall>v \<in> set vols.
               map_find (volser v) (volumes_m (snd (add_volumes_batch cfg now vols s))) \<noteq> None)"
    if h: "\<forall>v \<in> set vols. validate_volser (volser v)" "distinct (map volser vols)"
      "length (volumes_m s) + length vols \<le> max_volumes cfg"
      "dup \<in> set vols" "map_find (volser dup) (volumes_m s) \<noteq> None"
      "\<forall>v \<in> set vols. v \<noteq> dup \<longrightarrow> map_find (volser v) (volumes_m s) = None"
  proof -
    have d: "distinct vols"
      using h(2) by (rule distinct_map [THEN iffD1, THEN conjunct1])
    have P: "\<forall>y \<in> set vols. map_find (volser y) (volumes_m s) \<noteq> None \<longleftrightarrow> y = dup"
      using h(5,6) by auto
    have f1: "filter (\<lambda>v. map_find (volser v) (volumes_m s) \<noteq> None) vols = [dup]"
      by (rule filter_single(1) [OF d h(4) P])
    have f2: "length (filter (\<lambda>v. map_find (volser v) (volumes_m s) = None) vols)
              = length vols - 1"
      using filter_single(2) [OF d h(4) P] by simp
    show ?thesis
      using add_volumes_loop_valid_distinct [OF h(1,2,3), of now 0 "?res0 (length vols)"]
      by (simp add: add_volumes_batch_def f1 f2 del: not_None_eq)
  qed
  show ?thesis
    using counts steps part by blast
qed

text \<open>Witness for C8: five volumes \<open>V00001\<close> to \<open>V00005\<close> are added to a catalog that holds
  \<open>V00003\<close>: total 5, succeeded 4, failed 1, and the failure names \<open>V00003\<close>.\<close>

theorem add_volumes_batch_partial_failure_witness:
  "total (fst (add_volumes_batch default_config (\<lambda>i. 1000 + int i)
      [TapeVolume_new ''V00001'', TapeVolume_new ''V00002'', TapeVolume_new ''V00003'',
       TapeVolume_new ''V00004'', TapeVolume_new ''V00005'']
      (snd (add_volume default_config 0 (TapeVolume_new ''V00003'') TMSSystem_new)))) = 5
   \<and> succeeded (fst (add_volumes_batch default_config (\<lambda>i. 1000 + int i)
      [TapeVolume_new ''V00001'', TapeVolume_new ''V00002'', TapeVolume_new ''V00003'',
       TapeVolume_new ''V00004'', TapeVolume_new ''V00005'']
      (snd (add_volume default_config 0 (TapeVolume_new ''V00003'') TMSSystem_new)))) = 4
   \<and> failed (fst (add_volumes_batch default_config (\<lambda>i. 1000 + int i)
      [TapeVolume_new ''V00001'', TapeVolume_new ''V00002'', TapeVolume_new ''V00003'',
       TapeVolume_new ''V00004'', TapeVolume_new ''V00005'']
      (snd (add_volume default_config 0 (TapeVolume_new ''V00003'') TMSSystem_new)))) = 1
   \<and> failures (fst (add_volumes_batch default_config (\<lambda>i. 1000 + int i)
      [TapeVolume_new ''V00001'', TapeVolume_new ''V00002'', TapeVolume_new ''V00003'',
       TapeVolume_new ''V00004'', TapeVolume_new ''V00005'']
      (snd (add_volume default_config 0 (TapeVolume_new ''V00003'') TMSSystem_new))))
     = [(''V00003'', ''Volume already exists: V00003'')]"
proof -
  let ?s = "snd (add_volume default_config 0 (TapeVolume_new ''V00003'') TMSSystem_new)"
  let ?vols = "[TapeVolume_new ''V00001'', TapeVolume_new ''V00002'', TapeVolume_new ''V00003'',
       TapeVolume_new ''V00004'', TapeVolume_new ''V00005'']"
  have vm: "volumes_m ?s = [(''V00003'', add_volume_defaults 0 (TapeVolume_new ''V00003''))]"
    by (simp add: add_volume_def validate_volser_def MAX_VOLSER_LENGTH_def isalnum_def
        TapeVolume_new_def TMSSystem_new_def default_config_def map_size_def map_count_def
        add_volume_store_def Let_def map_find_def)
  have valid: "\<forall>v \<in> set ?vols. validate_volser (volser v)"
    by (simp add: validate_volser_def MAX_VOLSER_LENGTH_def isalnum_def TapeVolume_new_def)
  have dist: "distinct (map volser ?vols)"
    by (simp add: TapeVolume_new_def)
  have room: "length (volumes_m ?s) + length ?vols \<le> max_volumes default_config"
    unfolding vm by (simp add: default_config_def)
  have dup: "TapeVolume_new ''V00003'' \<in> set ?vols"
    by simp
  have ex: "map_find (volser (TapeVolume_new ''V00003'')) (volumes_m ?s) \<noteq> None"
    unfolding vm by (simp add: TapeVolume_new_def map_find_def)
  have others: "\<forall>v \<in> set ?vols. v \<noteq> TapeVolume_new ''V00003''
       \<longrightarrow> map_find (volser v) (volumes_m ?s) = None"
    unfolding vm by (simp add: TapeVolume_new_def map_find_def)
  show ?thesis
    using add_volumes_batch_partial_failure [of default_config "\<lambda>i. 1000 + int i" ?vols ?s
        "TapeVolume_new ''V00003''"] valid dist room dup ex others
    by (simp add: TapeVolume_new_def)
qed

section \<open>Used bytes of a volume\<close>

lemma keys_conv: "fst ` set m = {k. map_find k m \<noteq> None}"
  by (simp add: map_find_None_iff)

lemma keys_map_assign [simp]: "fst ` set (map_assign k v m) = insert k (fst ` set m)"
proof -
  have "{k'. map_find k' (map_assign k v m) \<noteq> None} = insert k {k'. map_find k' m \<noteq> None}"
    by auto
  then show ?thesis
    by (simp only: keys_conv)
qed

lemma map_ok_assign: "map_ok m \<Longrightarrow> map_ok (map_assign k v m)"
proof (induction m)
  case Nil
  show ?case by simp
next
  case (Cons a m)
  obtain k' v' where a: "a = (k', v')" by (cases a)
  have above: "\<forall>x \<in> fst ` set m. k' < x" and ok: "map_ok m"
    using Cons.prems by (simp_all add: a)
  consider "k < k'" | "k = k'" | "k' < k"
    by (rule linorder_cases)
  then show ?case
  proof cases
    case 1
    then have "\<forall>x \<in> fst ` set m. k < x"
      using above by (meson order.strict_trans)
    then show ?thesis using 1 above ok by (simp add: a)
  next
    case 2
    then show ?thesis using above ok by (simp add: a)
  next
    case 3
    then have "\<not> k < k'" and "k \<noteq> k'" by auto
    then show ?thesis using 3 above Cons.IH [OF ok] by (simp add: a)
  qed
qed

lemma keys_map_erase: "map fst (map_erase k m) = filter (\<lambda>x. x \<noteq> k) (map fst m)"
  by (induction m) (simp_all add: map_erase_def)

lemma map_ok_erase: "map_ok m \<Longrightarrow> map_ok (map_erase k m)"
  by (simp add: map_ok_def keys_map_erase sorted_wrt_filter)

lemma map_ok_distinct: "map_ok m \<Longrightarrow> distinct (map fst m)"
proof (induction m)
  case Nil
  show ?case by simp
next
  case (Cons a m)
  obtain k' v' where a: "a = (k', v')" by (cases a)
  have "k' \<notin> fst ` set m"
    using Cons.prems by (auto simp: a)
  then show ?case
    using Cons by (simp add: a)
qed

lemma bytes_on_assign_new:
  "map_find n m = None \<Longrightarrow>
   dataset_bytes_on k (map_assign n d m)
     = dataset_bytes_on k m + (if ds_volser d = k then unat (size_bytes d) else 0)"
  by (induction m) (auto simp: dataset_bytes_on_def split: if_splits)

lemma bytes_on_erase_absent:
  "n \<notin> fst ` set m \<Longrightarrow> dataset_bytes_on k (map_erase n m) = dataset_bytes_on k m"
  by (induction m) (auto simp: dataset_bytes_on_def map_erase_def)

lemma bytes_on_erase:
  "map_ok m \<Longrightarrow> map_find n m = Some d \<Longrightarrow>
   dataset_bytes_on k (map_erase n m) + (if ds_volser d = k then unat (size_bytes d) else 0)
     = dataset_bytes_on k m"
proof (induction m)
  case Nil
  then show ?case by simp
next
  case (Cons a m)
  obtain n' d' where a: "a = (n', d')" by (cases a)
  show ?case
  proof (cases "n' = n")
    case True
    then have "n \<notin> fst ` set m" and "d' = d"
      using Cons.prems by (auto simp: a)
    then show ?thesis
      using bytes_on_erase_absent [of n m k] True
      by (auto simp: a dataset_bytes_on_def map_erase_def)
  next
    case False
    then show ?thesis
      using Cons by (auto simp: a dataset_bytes_on_def map_erase_def)
  qed
qed

lemma used_bytes_exact_audit [simp]:
  "used_bytes_exact (add_audit_record now a b c s) = used_bytes_exact s"
  by (simp add: used_bytes_exact_def)

lemma used_bytes_exact_add_dataset_store:
  assumes inv: "used_bytes_exact s" and new: "map_find (ds_name ds) (datasets_m s) = None"
    and vol: "map_find (ds_volser ds) (volumes_m s) = Some vol"
    and fits: "unat (used_bytes vol) + unat (size_bytes ds) < 2 ^ 64"
  shows "used_bytes_exact (add_dataset_store ds vol s)"
proof -
  have sum: "unat (used_bytes vol + size_bytes ds) = unat (used_bytes vol) + unat (size_bytes ds)"
    using fits by (simp add: unat_word_ariths)
  have old: "unat (used_bytes vol) = dataset_bytes_on (ds_volser ds) (datasets_m s)"
    using inv vol by (simp add: used_bytes_exact_def)
  show ?thesis
    unfolding used_bytes_exact_def
  proof (intro allI impI)
    fix k v
    assume kv: "map_find k (volumes_m (add_dataset_store ds vol s)) = Some v"
    show "unat (used_bytes v) = dataset_bytes_on k (datasets_m (add_dataset_store ds vol s))"
    proof (cases "k = ds_volser ds")
      case True
      then have "used_bytes v = used_bytes vol + size_bytes ds"
        using kv by (auto simp: add_dataset_store_def)
      then show ?thesis
        using True sum old by (simp add: add_dataset_store_def bytes_on_assign_new [OF new])
    next
      case False
      then have "map_find k (volumes_m s) = Some v"
        using kv by (simp add: add_dataset_store_def)
      then have "unat (used_bytes v) = dataset_bytes_on k (datasets_m s)"
        using inv by (simp add: used_bytes_exact_def)
      then show ?thesis
        using False by (simp add: add_dataset_store_def bytes_on_assign_new [OF new])
    qed
  qed
qed

lemma used_bytes_exact_delete_dataset_erase:
  assumes inv: "used_bytes_exact s" and ok: "map_ok (datasets_m s)"
    and ds: "map_find n (datasets_m s) = Some ds"
  shows "used_bytes_exact (delete_dataset_erase n ds s)"
  unfolding used_bytes_exact_def
proof (intro allI impI)
  fix k v
  assume kv: "map_find k (volumes_m (delete_dataset_erase n ds s)) = Some v"
  have dm: "datasets_m (delete_dataset_erase n ds s) = map_erase n (datasets_m s)"
    by (simp add: delete_dataset_erase_def)
  note er = bytes_on_erase [OF ok ds, of k]
  show "unat (used_bytes v) = dataset_bytes_on k (datasets_m (delete_dataset_erase n ds s))"
  proof (cases "k = ds_volser ds")
    case True
    then obtain vol where vol: "map_find k (volumes_m s) = Some vol"
      and v: "v = delete_dataset_volume n ds vol"
      using kv by (auto simp: delete_dataset_erase_def split: option.splits)
    have old: "unat (used_bytes vol) = dataset_bytes_on k (datasets_m s)"
      using inv vol by (simp add: used_bytes_exact_def)
    then have ge: "unat (size_bytes ds) \<le> unat (used_bytes vol)"
      using er True by simp
    then have le: "size_bytes ds \<le> used_bytes vol"
      by (simp add: word_le_nat_alt)
    have "used_bytes v = used_bytes vol - size_bytes ds"
      using le by (simp add: v delete_dataset_volume_def Let_def)
    then have "unat (used_bytes v) = unat (used_bytes vol) - unat (size_bytes ds)"
      using le by (simp add: unat_sub)
    then show ?thesis
      using old er True by (simp add: dm)
  next
    case False
    then have "map_find k (volumes_m s) = Some v"
      using kv by (auto simp: delete_dataset_erase_def split: option.splits if_splits)
    then have "unat (used_bytes v) = dataset_bytes_on k (datasets_m s)"
      using inv by (simp add: used_bytes_exact_def)
    then show ?thesis
      using er False by (simp add: dm)
  qed
qed

lemma datasets_map_ok_apply_call:
  assumes "map_ok (datasets_m s)" and "dataset_add_delete c"
  shows "map_ok (datasets_m (apply_call c s))"
  using assms
  by (cases c)
    (auto simp: dataset_add_delete_def add_dataset_def delete_dataset_def Let_def
      add_dataset_store_def delete_dataset_erase_def map_ok_assign map_ok_erase
      split: option.splits)

lemma used_bytes_exact_apply_call:
  assumes inv: "used_bytes_exact s" and ok: "map_ok (datasets_m s)"
    and c: "dataset_add_delete c" and fits: "add_fits_u64 c s"
  shows "used_bytes_exact (apply_call c s)"
proof (cases c)
  case (Add_dataset cfg now dataset)
  show ?thesis
  proof (cases "fst (add_dataset cfg now dataset s)")
    case (Inl e)
    then have "snd (add_dataset cfg now dataset s) = s"
      by (auto simp: add_dataset_def Let_def ok_def split: if_splits option.splits)
    then show ?thesis using inv by (simp add: Add_dataset)
  next
    case (Inr u)
    then have eq: "add_dataset cfg now dataset s = (Inr u, snd (add_dataset cfg now dataset s))"
      by (simp add: prod_eq_iff)
    from add_dataset_success [OF eq] obtain vol where
      vol: "map_find (ds_volser dataset) (volumes_m s) = Some vol"
      and s': "snd (add_dataset cfg now dataset s)
        = add_audit_record now ''ADD_DATASET'' (ds_name dataset) (''Volume: '' @ ds_volser dataset)
            (add_dataset_store (add_dataset_defaults now dataset) vol s)"
      and new: "map_find (ds_name dataset) (datasets_m s) = None"
      by blast
    have f: "unat (used_bytes vol) + unat (size_bytes dataset) < 2 ^ 64"
      using fits vol Inr by (simp add: add_fits_u64_def Add_dataset)
    have "used_bytes_exact (add_dataset_store (add_dataset_defaults now dataset) vol s)"
      using used_bytes_exact_add_dataset_store [of s "add_dataset_defaults now dataset" vol]
        inv new vol f by simp
    then show ?thesis
      by (simp add: Add_dataset s')
  qed
next
  case (Delete_dataset now n)
  show ?thesis
    using inv ok used_bytes_exact_delete_dataset_erase [of s n]
    by (auto simp: Delete_dataset delete_dataset_def split: option.splits)
qed (use c in \<open>simp_all add: dataset_add_delete_def\<close>)

text \<open>
  C3, as the code has it. From a catalog in which the \<open>used_bytes\<close> of every volume is
  the sum of the sizes of the datasets stored on it, every sequence of \<open>add_dataset\<close> and
  \<open>delete_dataset\<close> calls keeps it so, provided that no \<open>add_dataset\<close> takes the total
  of a volume to \<open>2 ^ 64\<close> or beyond (\<open>used_bytes\<close> is a 64-bit counter and wraps around).
\<close>

theorem used_bytes_bookkeeping_without_wrap:
  assumes "used_bytes_exact s" and "map_ok (datasets_m s)"
    and "\<forall>c \<in> set calls. dataset_add_delete c" and "all_adds_fit_u64 calls s"
  shows "used_bytes_exact (run_calls calls s)"
  using assms unfolding run_calls_def
proof (induction calls arbitrary: s)
  case Nil
  then show ?case by simp
next
  case (Cons c calls)
  have "used_bytes_exact (apply_call c s)"
    using Cons.prems by (simp add: used_bytes_exact_apply_call)
  moreover have "map_ok (datasets_m (apply_call c s))"
    using Cons.prems by (simp add: datasets_map_ok_apply_call)
  ultimately show ?case
    using Cons.IH [of "apply_call c s"] Cons.prems by simp
qed

lemmas dataset_eval =
  run_calls_def delete_dataset_def delete_dataset_erase_def delete_dataset_volume_def
  map_erase_def SecondaryIndex_remove_def dataset_bytes_on_def

text \<open>Witness for C3: datasets of 100 and 50 bytes are added on \<open>V1\<close> and the first is
  deleted; the invariant holds and the sum is 50.\<close>

theorem used_bytes_bookkeeping_without_wrap_witness:
  "used_bytes_exact (snd (add_volume default_config 0 (TapeVolume_new ''V1'') TMSSystem_new))
   \<and> all_adds_fit_u64
      [Add_dataset default_config 1000 ((Dataset_new ''D1'' ''V1'')\<lparr>size_bytes := 100\<rparr>),
       Add_dataset default_config 2000 ((Dataset_new ''D2'' ''V1'')\<lparr>size_bytes := 50\<rparr>),
       Delete_dataset 3000 ''D1'']
      (snd (add_volume default_config 0 (TapeVolume_new ''V1'') TMSSystem_new))
   \<and> used_bytes_exact (run_calls
      [Add_dataset default_config 1000 ((Dataset_new ''D1'' ''V1'')\<lparr>size_bytes := 100\<rparr>),
       Add_dataset default_config 2000 ((Dataset_new ''D2'' ''V1'')\<lparr>size_bytes := 50\<rparr>),
       Delete_dataset 3000 ''D1'']
      (snd (add_volume default_config 0 (TapeVolume_new ''V1'') TMSSystem_new)))
   \<and> dataset_bytes_on ''V1'' (datasets_m (run_calls
      [Add_dataset default_config 1000 ((Dataset_new ''D1'' ''V1'')\<lparr>size_bytes := 100\<rparr>),
       Add_dataset default_config 2000 ((Dataset_new ''D2'' ''V1'')\<lparr>size_bytes := 50\<rparr>),
       Delete_dataset 3000 ''D1'']
      (snd (add_volume default_config 0 (TapeVolume_new ''V1'') TMSSystem_new)))) = 50"
proof -
  let ?s = "snd (add_volume default_config 0 (TapeVolume_new ''V1'') TMSSystem_new)"
  let ?calls = "[Add_dataset default_config 1000 ((Dataset_new ''D1'' ''V1'')\<lparr>size_bytes := 100\<rparr>),
       Add_dataset default_config 2000 ((Dataset_new ''D2'' ''V1'')\<lparr>size_bytes := 50\<rparr>),
       Delete_dataset 3000 ''D1'']"
  have inv: "used_bytes_exact ?s"
    by (simp add: used_bytes_exact_def catalog_eval dataset_bytes_on_def)
  have ok: "map_ok (datasets_m ?s)"
    by (simp add: catalog_eval)
  have calls: "\<forall>c \<in> set ?calls. dataset_add_delete c"
    by (simp add: dataset_add_delete_def)
  have fits: "all_adds_fit_u64 ?calls ?s"
    by (simp add: add_fits_u64_def catalog_eval)
  have sum: "dataset_bytes_on ''V1'' (datasets_m (run_calls ?calls ?s)) = 50"
    by (simp add: catalog_eval dataset_eval)
  show ?thesis
    using used_bytes_bookkeeping_without_wrap [OF inv ok calls fits] inv fits sum by blast
qed

text \<open>
  Counterexample to C3 as stated: two datasets of \<open>2 ^ 63\<close> bytes are added on the fresh
  volume \<open>V1\<close> and the first is deleted. \<open>used_bytes\<close> wrapped to 0 at the second
  addition and stays 0, while the dataset left on the volume has \<open>2 ^ 63\<close> bytes.
\<close>

theorem used_bytes_wraps_counterexample:
  "map_option used_bytes (map_find ''V1'' (volumes_m (run_calls
      [Add_dataset default_config 1000 ((Dataset_new ''D1'' ''V1'')\<lparr>size_bytes := 2 ^ 63\<rparr>),
       Add_dataset default_config 2000 ((Dataset_new ''D2'' ''V1'')\<lparr>size_bytes := 2 ^ 63\<rparr>),
       Delete_dataset 3000 ''D1'']
      (snd (add_volume default_config 0 (TapeVolume_new ''V1'') TMSSystem_new))))) = Some 0
   \<and> dataset_bytes_on ''V1'' (datasets_m (run_calls
      [Add_dataset default_config 1000 ((Dataset_new ''D1'' ''V1'')\<lparr>size_bytes := 2 ^ 63\<rparr>),
       Add_dataset default_config 2000 ((Dataset_new ''D2'' ''V1'')\<lparr>size_bytes := 2 ^ 63\<rparr>),
       Delete_dataset 3000 ''D1'']
      (snd (add_volume default_config 0 (TapeVolume_new ''V1'') TMSSystem_new)))) = 2 ^ 63"
  by (simp add: catalog_eval dataset_eval)

section \<open>Parallel batch of add\_volume\<close>

lemma concat_chunks:
  "concat (map (\<lambda>t. take c (drop (t * c) xs)) [0..<m]) = take (m * c) xs"
proof (induction m)
  case 0
  show ?case by simp
next
  case (Suc m)
  have "take (m * c) xs @ take c (drop (m * c) xs) = take (m * c + c) xs"
    by (simp add: take_add)
  then show ?case
    using Suc by (simp add: add.commute)
qed

lemma worker_ranges_cover:
  assumes "worker_ranges thread_count (length xs) = Some ranges"
  shows "concat (map (worker_items xs) ranges) = xs"
proof -
  define tc where "tc = min (min thread_count (length xs)) MAX_PARALLEL_OPERATIONS"
  define c where "c = length xs div tc"
  have tc: "tc \<noteq> 0"
    and ranges: "ranges = map (\<lambda>t. (t * c, if t = tc - 1 then length xs else (t + 1) * c)) [0..<tc]"
    using assms by (auto simp: worker_ranges_def Let_def tc_def c_def split: if_splits)
  obtain m where m: "tc = Suc m"
    using tc by (cases tc) auto
  have front: "map (\<lambda>t. worker_items xs (t * c, if t = m then length xs else (t + 1) * c)) [0..<m]
      = map (\<lambda>t. take c (drop (t * c) xs)) [0..<m]"
    by (simp add: worker_items_def)
  have "map (worker_items xs) ranges
      = map (\<lambda>t. worker_items xs (t * c, if t = m then length xs else (t + 1) * c)) [0..<m]
        @ [worker_items xs (m * c, length xs)]"
    by (simp add: ranges m comp_def)
  then have "concat (map (worker_items xs) ranges)
      = concat (map (\<lambda>t. take c (drop (t * c) xs)) [0..<m]) @ worker_items xs (m * c, length xs)"
    by (simp only: front concat_append concat.simps append_Nil2)
  also have "\<dots> = take (m * c) xs @ drop (m * c) xs"
    by (simp add: concat_chunks worker_items_def)
  finally show ?thesis by simp
qed

lemma concat_update_head:
  assumes "i < length shards" and "shards ! i = x # r"
  shows "set (concat shards) = insert x (set (concat (shards[i := r])))"
    and "length (concat shards) = Suc (length (concat (shards[i := r])))"
proof -
  have a: "shards = take i shards @ (x # r) # drop (Suc i) shards"
    using assms by (metis id_take_nth_drop)
  have b: "shards[i := r] = take i shards @ r # drop (Suc i) shards"
    using assms(1) by (simp add: upd_conv_take_nth_drop)
  show "set (concat shards) = insert x (set (concat (shards[i := r])))"
    by (subst a, subst b) auto
  show "length (concat shards) = Suc (length (concat (shards[i := r])))"
    by (subst a, subst b) simp
qed

lemma interleaves_set_length:
  "interleaves shards sched \<Longrightarrow>
   set sched = set (concat shards) \<and> length sched = length (concat shards)"
proof (induction sched arbitrary: shards)
  case Nil
  then have "\<forall>sh \<in> set shards. sh = []"
    by (simp add: list_all_iff)
  then have "concat shards = []"
    by simp
  then show ?case by simp
next
  case (Cons x xs)
  then obtain i where i: "i < length shards" "shards ! i \<noteq> []" "hd (shards ! i) = x"
    and rest: "interleaves (shards[i := tl (shards ! i)]) xs"
    by (auto simp: list_ex_iff)
  have sh: "shards ! i = x # tl (shards ! i)"
    using i(2,3) by (cases "shards ! i") auto
  show ?case
    using Cons.IH [OF rest] concat_update_head [OF i(1) sh] by simp
qed

lemma add_volume_step:
  assumes "length (volumes_m s) < max_volumes cfg"
  shows "map_find k (volumes_m (snd (add_volume cfg t v s)))
           = (if k = volser v \<and> map_find k (volumes_m s) = None \<and> validate_volser k
              then Some (add_volume_defaults t v) else map_find k (volumes_m s))"
    and "length (volumes_m (snd (add_volume cfg t v s))) \<le> Suc (length (volumes_m s))"
proof -
  consider (invalid) "\<not> validate_volser (volser v)"
    | (present) "validate_volser (volser v)" "map_find (volser v) (volumes_m s) \<noteq> None"
    | (new) "validate_volser (volser v)" "map_find (volser v) (volumes_m s) = None"
    by blast
  then have "map_find k (volumes_m (snd (add_volume cfg t v s)))
           = (if k = volser v \<and> map_find k (volumes_m s) = None \<and> validate_volser k
              then Some (add_volume_defaults t v) else map_find k (volumes_m s))
      \<and> length (volumes_m (snd (add_volume cfg t v s))) \<le> Suc (length (volumes_m s))"
  proof cases
    case invalid
    then have "snd (add_volume cfg t v s) = s"
      by (simp add: add_volume_def)
    then show ?thesis using invalid by auto
  next
    case present
    have "snd (add_volume cfg t v s) = s"
      using add_volume_existing_key [OF present(1) assms present(2), of t] by simp
    then show ?thesis using present by auto
  next
    case new
    have vm: "volumes_m (snd (add_volume cfg t v s))
        = map_assign (volser v) (add_volume_defaults t v) (volumes_m s)"
      by (rule add_volume_new_key(2) [OF new(1) assms new(2)])
    show ?thesis
      using new by (auto simp: vm length_map_assign_new)
  qed
  then show "map_find k (volumes_m (snd (add_volume cfg t v s)))
           = (if k = volser v \<and> map_find k (volumes_m s) = None \<and> validate_volser k
              then Some (add_volume_defaults t v) else map_find k (volumes_m s))"
    and "length (volumes_m (snd (add_volume cfg t v s))) \<le> Suc (length (volumes_m s))"
    by blast+
qed

lemma add_volumes_loop_Cons_state:
  "snd (add_volumes_loop cfg now i (v # vols) res s)
     = snd (add_volumes_loop cfg now (Suc i) vols res (snd (add_volume cfg (now i) v s)))"
proof -
  obtain r s' where a: "add_volume cfg (now i) v s = (r, s')"
    by (cases "add_volume cfg (now i) v s")
  show ?thesis
    using add_volumes_loop_state [of cfg now "Suc i" vols _ s' res]
    by (cases r) (simp_all add: a)
qed


lemma add_volumes_loop_volumes:
  assumes "distinct (map volser vols)"
    and "length (volumes_m s) + length vols \<le> max_volumes cfg"
  shows "(\<forall>k. k \<notin> volser ` set vols \<longrightarrow>
            map_find k (volumes_m (snd (add_volumes_loop cfg now i vols res s)))
              = map_find k (volumes_m s))
       \<and> (\<forall>j < length vols.
            map_find (volser (vols ! j)) (volumes_m (snd (add_volumes_loop cfg now i vols res s)))
              = batch_stored now (i + j) s (vols ! j))"
  using assms
proof (induction vols arbitrary: i s)
  case Nil
  show ?case by simp
next
  case (Cons v vols)
  let ?s' = "snd (add_volume cfg (now i) v s)"
  let ?fin = "snd (add_volumes_loop cfg now (Suc i) vols res ?s')"
  have room: "length (volumes_m s) < max_volumes cfg"
    using Cons.prems(2) by simp
  note step1 = add_volume_step(1) [OF room, of _ "now i" v]
  note step2 = add_volume_step(2) [OF room, of "now i" v]
  have d: "distinct (map volser vols)" and nv: "volser v \<notin> volser ` set vols"
    using Cons.prems(1) by simp_all
  have len: "length (volumes_m ?s') + length vols \<le> max_volumes cfg"
    using step2 Cons.prems(2) by simp
  note ih = Cons.IH [OF d len, of "Suc i"]
  have unf: "snd (add_volumes_loop cfg now i (v # vols) res s) = ?fin"
    by (rule add_volumes_loop_Cons_state)
  have outside: "map_find k (volumes_m ?fin) = map_find k (volumes_m s)"
    if "k \<notin> volser ` set (v # vols)" for k
  proof -
    have "k \<noteq> volser v" and "k \<notin> volser ` set vols"
      using that by auto
    then show ?thesis
      using ih step1 [of k] by simp
  qed
  have head: "map_find (volser v) (volumes_m ?fin) = batch_stored now i s v"
  proof -
    have "map_find (volser v) (volumes_m ?fin) = map_find (volser v) (volumes_m ?s')"
      using ih nv by blast
    then show ?thesis
      using step1 [of "volser v"]
      by (auto simp: batch_stored_def split: option.splits)
  qed
  have tail: "map_find (volser (vols ! j)) (volumes_m ?fin) = batch_stored now (i + Suc j) s (vols ! j)"
    if "j < length vols" for j
  proof -
    have ne: "volser (vols ! j) \<noteq> volser v"
      using nv that by (metis imageI nth_mem)
    have "map_find (volser (vols ! j)) (volumes_m ?fin) = batch_stored now (Suc i + j) ?s' (vols ! j)"
      using ih that by blast
    also have "\<dots> = batch_stored now (i + Suc j) s (vols ! j)"
      using step1 [of "volser (vols ! j)"] ne by (simp add: batch_stored_def)
    finally show ?thesis .
  qed
  have all: "map_find (volser ((v # vols) ! j)) (volumes_m ?fin)
               = batch_stored now (i + j) s ((v # vols) ! j)"
    if "j < length (v # vols)" for j
    using that head tail by (cases j) simp_all
  show ?case
    unfolding unf using outside all by blast
qed

lemma batch_stored_None:
  "batch_stored now j s v = None \<longleftrightarrow> batch_stored now' j' s v = None"
  by (simp add: batch_stored_def split: option.splits)

lemma without_clock_defaults:
  "without_clock_fields (add_volume_defaults t v) = without_clock_fields (add_volume_defaults t' v)"
  by (simp add: without_clock_fields_def add_volume_defaults_def Let_def)

lemma batch_stored_clockless:
  "batch_stored now j s v = Some a \<Longrightarrow>
   \<exists>b. batch_stored now' j' s v = Some b \<and> without_clock_fields a = without_clock_fields b"
  using without_clock_defaults
  by (auto simp: batch_stored_def split: option.splits if_splits)

lemma interleaves_concat: "interleaves shards (concat shards)"
proof (induction "concat shards" arbitrary: shards)
  case Nil
  have "\<forall>sh \<in> set shards. sh = []"
    using Nil.hyps by (metis concat_eq_Nil_conv)
  then show ?case
    unfolding Nil.hyps [symmetric] by (simp add: list_all_iff)
next
  case (Cons x xs)
  have cx: "concat shards = x # xs"
    using Cons.hyps(2) by simp
  then have "concat shards \<noteq> []"
    by simp
  then obtain sh where "sh \<in> set shards" "sh \<noteq> []"
    unfolding concat_eq_Nil_conv by blast
  then have ex: "\<exists>i. i < length shards \<and> shards ! i \<noteq> []"
    unfolding in_set_conv_nth by blast
  define i where "i = (LEAST i. i < length shards \<and> shards ! i \<noteq> [])"
  have i12: "i < length shards \<and> shards ! i \<noteq> []"
    unfolding i_def using ex by (rule LeastI_ex)
  have i3: "shards ! j = []" if "j < i" for j
  proof -
    have "\<not> (j < length shards \<and> shards ! j \<noteq> [])"
      using that not_less_Least unfolding i_def by blast
    then show ?thesis using that i12 by simp
  qed
  have i: "i < length shards" "shards ! i \<noteq> []"
    using i12 by blast+
  have "\<forall>sh \<in> set (take i shards). sh = []"
  proof
    fix sh assume "sh \<in> set (take i shards)"
    then obtain j where "j < length (take i shards)" "take i shards ! j = sh"
      unfolding in_set_conv_nth by blast
    then show "sh = []"
      using i3 [of j] by simp
  qed
  then have front: "concat (take i shards) = []"
    unfolding concat_eq_Nil_conv .
  obtain y ys where y: "shards ! i = y # ys"
    using i(2) by (cases "shards ! i") simp_all
  have "concat shards = concat (take i shards @ shards ! i # drop (Suc i) shards)"
    using id_take_nth_drop [OF i(1)] by simp
  then have whole: "concat shards = y # ys @ concat (drop (Suc i) shards)"
    by (simp only: concat_append concat.simps front y append_Nil append_Cons)
  have "concat (shards[i := ys]) = concat (take i shards @ ys # drop (Suc i) shards)"
    by (simp only: upd_conv_take_nth_drop [OF i(1)])
  then have upd: "concat (shards[i := ys]) = ys @ concat (drop (Suc i) shards)"
    by (simp only: concat_append concat.simps front append_Nil)
  have hd: "y = x" and rest: "xs = concat (shards[i := ys])"
    using cx whole upd by simp_all
  have "interleaves (shards[i := ys]) xs"
    using Cons.hyps(1) [OF rest] rest by simp
  then have "i \<in> set [0..<length shards] \<and> shards ! i \<noteq> [] \<and> hd (shards ! i) = x
                       \<and> interleaves (shards[i := tl (shards ! i)]) xs"
    using i(1) hd y by simp
  then have "list_ex (\<lambda>i. shards ! i \<noteq> [] \<and> hd (shards ! i) = x
                       \<and> interleaves (shards[i := tl (shards ! i)]) xs) [0..<length shards]"
    unfolding list_ex_iff by blast
  then show ?case
    unfolding cx by (simp only: interleaves.simps)
qed

lemma batch_stored_same_clock:
  "now j = now' j' \<Longrightarrow> batch_stored now j s v = batch_stored now' j' s v"
  by (simp add: batch_stored_def split: option.splits)

lemma parallel_schedule_sequential:
  assumes "1 \<le> k" and "k \<le> length volumes"
  shows "parallel_schedule k volumes volumes"
proof -
  have "min (min k (length volumes)) MAX_PARALLEL_OPERATIONS \<noteq> 0"
    using assms by (simp add: MAX_PARALLEL_OPERATIONS_def)
  then obtain ranges where r: "worker_ranges k (length volumes) = Some ranges"
    by (simp add: worker_ranges_def Let_def)
  show ?thesis
    using interleaves_concat [of "map (worker_items volumes) ranges"] worker_ranges_cover [OF r]
    by (simp add: parallel_schedule_def r)
qed

lemma parallel_schedule_items:
  assumes "parallel_schedule k volumes schedule"
  shows "set schedule = set volumes" and "length schedule = length volumes"
proof -
  obtain ranges where r: "worker_ranges k (length volumes) = Some ranges"
    and i: "interleaves (map (worker_items volumes) ranges) schedule"
    using assms by (auto simp: parallel_schedule_def split: option.splits)
  show "set schedule = set volumes" and "length schedule = length volumes"
    using interleaves_set_length [OF i] worker_ranges_cover [OF r] by simp_all
qed

text \<open>
  C9. Let the items of a batch have pairwise distinct volsers and let the catalog have room
  for all of them below the volume limit. Then for every thread count \<open>k\<close> from 1 to the
  number of items and every order in which the \<open>add_volume\<close> calls of the \<open>k\<close> workers of
  \<open>parallel_add_volumes\<close> can take place, the run leaves the same volumes in the catalog
  as the sequential \<open>add_volumes_batch\<close>: the same volsers are stored, the volume stored
  under a volser is the same up to the fields that \<open>add_volume\<close> fills from the clock, and
  it is the same in every field when the clock readings agree.
\<close>

theorem parallel_add_volumes_same_volumes:
  assumes "distinct (map volser volumes)"
    and "length (volumes_m s) + length volumes \<le> max_volumes cfg"
    and "1 \<le> k" and "k \<le> length volumes"
    and "parallel_schedule k volumes schedule"
  shows "fst ` set (volumes_m (snd (parallel_add_volumes cfg now_p volumes schedule s)))
           = fst ` set (volumes_m (snd (add_volumes_batch cfg now_s volumes s)))
     \<and> (\<forall>key a. map_find key (volumes_m (snd (parallel_add_volumes cfg now_p volumes schedule s))) = Some a
          \<longrightarrow> (\<exists>b. map_find key (volumes_m (snd (add_volumes_batch cfg now_s volumes s))) = Some b
                   \<and> without_clock_fields a = without_clock_fields b))
     \<and> ((\<forall>i j. now_p i = now_s j)
          \<longrightarrow> (\<forall>key. map_find key (volumes_m (snd (parallel_add_volumes cfg now_p volumes schedule s)))
                       = map_find key (volumes_m (snd (add_volumes_batch cfg now_s volumes s)))))"
proof -
  let ?r0 = "\<lparr>total = length volumes, succeeded = 0, failed = 0, skipped = 0, failures = []\<rparr>"
  let ?par = "volumes_m (snd (add_volumes_loop cfg now_p 0 schedule ?r0 s))"
  let ?seq = "volumes_m (snd (add_volumes_loop cfg now_s 0 volumes ?r0 s))"
  have ne: "volumes \<noteq> []"
    using assms(3,4) by auto
  have par: "volumes_m (snd (parallel_add_volumes cfg now_p volumes schedule s)) = ?par"
    using ne by (simp add: parallel_add_volumes_def)
  have seq: "volumes_m (snd (add_volumes_batch cfg now_s volumes s)) = ?seq"
    by (simp add: add_volumes_batch_def)
  note items = parallel_schedule_items [OF assms(5)]
  have "card (set (map volser schedule)) = length (map volser schedule)"
    using distinct_card [OF assms(1)] items by simp
  then have dsched: "distinct (map volser schedule)"
    by (rule card_distinct)
  have room: "length (volumes_m s) + length schedule \<le> max_volumes cfg"
    using assms(2) items(2) by simp
  note P = add_volumes_loop_volumes [OF dsched room, of now_p 0 ?r0]
  note S = add_volumes_loop_volumes [OF assms(1,2), of now_s 0 ?r0]
  have cases: "(map_find key ?par = map_find key (volumes_m s) \<and> map_find key ?seq = map_find key (volumes_m s))
      \<or> (\<exists>v i j. map_find key ?par = batch_stored now_p i s v \<and> map_find key ?seq = batch_stored now_s j s v)"
    for key
  proof (cases "key \<in> volser ` set volumes")
    case False
    have "map_find key ?par = map_find key (volumes_m s)"
      using P [THEN conjunct1, rule_format, of key] False items(1) by simp
    moreover have "map_find key ?seq = map_find key (volumes_m s)"
      using S [THEN conjunct1, rule_format, of key] False by simp
    ultimately show ?thesis by simp
  next
    case True
    then obtain j where j: "j < length volumes" "key = volser (volumes ! j)"
      by (auto simp: in_set_conv_nth)
    have "volumes ! j \<in> set schedule"
      using j(1) items(1) by simp
    then obtain i where i: "i < length schedule" "schedule ! i = volumes ! j"
      by (auto simp: in_set_conv_nth)
    have "map_find (volser (schedule ! i)) ?par = batch_stored now_p (0 + i) s (schedule ! i)"
      by (rule P [THEN conjunct2, rule_format, OF i(1)])
    then have p: "map_find key ?par = batch_stored now_p (0 + i) s (volumes ! j)"
      by (simp add: i(2) j(2))
    have "map_find (volser (volumes ! j)) ?seq = batch_stored now_s (0 + j) s (volumes ! j)"
      by (rule S [THEN conjunct2, rule_format, OF j(1)])
    then have q: "map_find key ?seq = batch_stored now_s (0 + j) s (volumes ! j)"
      by (simp add: j(2))
    show ?thesis
      using p q by blast
  qed
  have none: "map_find key ?par = None \<longleftrightarrow> map_find key ?seq = None" for key
  proof -
    consider (old) "map_find key ?par = map_find key (volumes_m s)"
        "map_find key ?seq = map_find key (volumes_m s)"
      | (item) v i j where "map_find key ?par = batch_stored now_p i s v"
        "map_find key ?seq = batch_stored now_s j s v"
      using cases [of key] by blast
    then show ?thesis
    proof cases
      case old
      then show ?thesis by simp
    next
      case item
      show ?thesis
        using batch_stored_None [of now_p i s v now_s j] item by simp
    qed
  qed
  have keys: "fst ` set ?par = fst ` set ?seq"
    using none by (simp add: keys_conv)
  have clockless: "\<exists>b. map_find key ?seq = Some b \<and> without_clock_fields a = without_clock_fields b"
    if "map_find key ?par = Some a" for key a
  proof -
    consider (old) "map_find key ?par = map_find key (volumes_m s)"
        "map_find key ?seq = map_find key (volumes_m s)"
      | (item) v i j where "map_find key ?par = batch_stored now_p i s v"
        "map_find key ?seq = batch_stored now_s j s v"
      using cases [of key] by blast
    then show ?thesis
    proof cases
      case old
      have "map_find key ?seq = Some a"
        using old that by simp
      then show ?thesis by simp
    next
      case item
      show ?thesis
        using batch_stored_clockless [of now_p i s v a now_s j] that item by simp
    qed
  qed
  have same: "map_find key ?par = map_find key ?seq" if "\<forall>i j. now_p i = now_s j" for key
  proof -
    consider (old) "map_find key ?par = map_find key (volumes_m s)"
        "map_find key ?seq = map_find key (volumes_m s)"
      | (item) v i j where "map_find key ?par = batch_stored now_p i s v"
        "map_find key ?seq = batch_stored now_s j s v"
      using cases [of key] by blast
    then show ?thesis
    proof cases
      case old
      then show ?thesis by simp
    next
      case item
      have "now_p i = now_s j" using that by simp
      then show ?thesis
        using batch_stored_same_clock [of now_p i now_s j s v] item by simp
    qed
  qed
  show ?thesis
    unfolding par seq using keys clockless same by blast
qed

text \<open>Witness for C9: four new volumes and two workers; the workers hold \<open>V1, V2\<close> and
  \<open>V3, V4\<close>, and the calls happen in the order \<open>V3, V1, V4, V2\<close>, once with clocks that
  differ from those of the sequential run and once with the same constant clock.\<close>

theorem parallel_add_volumes_same_volumes_witness:
  "distinct (map volser [TapeVolume_new ''V1'', TapeVolume_new ''V2'', TapeVolume_new ''V3'',
         TapeVolume_new ''V4''])
   \<and> length (volumes_m TMSSystem_new) + length [TapeVolume_new ''V1'', TapeVolume_new ''V2'', TapeVolume_new ''V3'',
         TapeVolume_new ''V4''] \<le> max_volumes default_config
   \<and> (1::nat) \<le> 2
   \<and> 2 \<le> length [TapeVolume_new ''V1'', TapeVolume_new ''V2'', TapeVolume_new ''V3'',
         TapeVolume_new ''V4'']
   \<and> parallel_schedule 2
        [TapeVolume_new ''V1'', TapeVolume_new ''V2'', TapeVolume_new ''V3'',
         TapeVolume_new ''V4'']
        [TapeVolume_new ''V3'', TapeVolume_new ''V1'', TapeVolume_new ''V4'',
         TapeVolume_new ''V2'']
   \<and> fst ` set (volumes_m (snd (parallel_add_volumes default_config (\<lambda>i. 1000 + int i)
        [TapeVolume_new ''V1'', TapeVolume_new ''V2'', TapeVolume_new ''V3'',
         TapeVolume_new ''V4'']
        [TapeVolume_new ''V3'', TapeVolume_new ''V1'', TapeVolume_new ''V4'',
         TapeVolume_new ''V2'']
        TMSSystem_new)))
     = fst ` set (volumes_m (snd (add_volumes_batch default_config (\<lambda>i. 2000 + int i)
        [TapeVolume_new ''V1'', TapeVolume_new ''V2'', TapeVolume_new ''V3'',
         TapeVolume_new ''V4'']
        TMSSystem_new)))
   \<and> (\<forall>key. map_find key (volumes_m (snd (parallel_add_volumes default_config (\<lambda>i. 1000)
        [TapeVolume_new ''V1'', TapeVolume_new ''V2'', TapeVolume_new ''V3'',
         TapeVolume_new ''V4'']
        [TapeVolume_new ''V3'', TapeVolume_new ''V1'', TapeVolume_new ''V4'',
         TapeVolume_new ''V2'']
        TMSSystem_new)))
     = map_find key (volumes_m (snd (add_volumes_batch default_config (\<lambda>i. 1000)
        [TapeVolume_new ''V1'', TapeVolume_new ''V2'', TapeVolume_new ''V3'',
         TapeVolume_new ''V4'']
        TMSSystem_new))))"
proof -
  let ?vols = "[TapeVolume_new ''V1'', TapeVolume_new ''V2'', TapeVolume_new ''V3'',
         TapeVolume_new ''V4'']"
  let ?sched = "[TapeVolume_new ''V3'', TapeVolume_new ''V1'', TapeVolume_new ''V4'',
         TapeVolume_new ''V2'']"
  have d: "distinct (map volser ?vols)"
    by (simp add: TapeVolume_new_def)
  have r: "length (volumes_m TMSSystem_new) + length ?vols \<le> max_volumes default_config"
    by (simp add: TMSSystem_new_def default_config_def)
  have k: "(1::nat) \<le> 2" "2 \<le> length ?vols"
    by simp_all
  have len: "length ?vols = 4"
    by simp
  have ranges: "worker_ranges 2 4 = Some [(0, 2), (2, 4)]"
    by code_simp
  have shards: "map (worker_items ?vols) [(0, 2), (2, 4)]
      = [[TapeVolume_new ''V1'', TapeVolume_new ''V2''],
         [TapeVolume_new ''V3'', TapeVolume_new ''V4'']]"
    by (simp add: worker_items_def)
  have "interleaves [[TapeVolume_new ''V1'', TapeVolume_new ''V2''],
      [TapeVolume_new ''V3'', TapeVolume_new ''V4'']] ?sched"
    by (simp add: TapeVolume_new_def)
  then have p: "parallel_schedule 2 ?vols ?sched"
    unfolding parallel_schedule_def len ranges option.case shards .
  have keys: "fst ` set (volumes_m (snd (parallel_add_volumes default_config (\<lambda>i. 1000 + int i)
        ?vols ?sched TMSSystem_new)))
     = fst ` set (volumes_m (snd (add_volumes_batch default_config (\<lambda>i. 2000 + int i)
        ?vols TMSSystem_new)))"
    using parallel_add_volumes_same_volumes [OF d r k p, of "\<lambda>i. 1000 + int i" "\<lambda>i. 2000 + int i"]
    by blast
  have same: "\<forall>key. map_find key (volumes_m (snd (parallel_add_volumes default_config (\<lambda>i. 1000)
        ?vols ?sched TMSSystem_new)))
     = map_find key (volumes_m (snd (add_volumes_batch default_config (\<lambda>i. 1000)
        ?vols TMSSystem_new)))"
    using parallel_add_volumes_same_volumes [OF d r k p, of "\<lambda>i. 1000" "\<lambda>i. 1000"]
    by blast
  show ?thesis
    using d r k p keys same by blast
qed

end
